theory Spec2Isabelle
  imports Complex_Main "HOL-Library.Multiset"
begin

section \<open>JavaScript values used by the vector-memory skill\<close>

subsection \<open>Numbers\<close>

text \<open>
  A JavaScript number is modelled as an exact real, or one of the three special values
  \<open>NaN\<close>, \<open>Infinity\<close> and \<open>-Infinity\<close>. Rounding and signed zeros are not modelled;
  the operations below follow IEEE 754 on the special values (\<open>0/0\<close>, \<open>Infinity - Infinity\<close>
  and \<open>0 * Infinity\<close> are \<open>NaN\<close>, and every comparison with \<open>NaN\<close> is false).
\<close>

datatype jsnum = Num real | NaN | PosInf | NegInf

fun js_add :: "jsnum \<Rightarrow> jsnum \<Rightarrow> jsnum" where
  "js_add (Num x) (Num y) = Num (x + y)"
| "js_add NaN _ = NaN"
| "js_add _ NaN = NaN"
| "js_add PosInf NegInf = NaN"
| "js_add NegInf PosInf = NaN"
| "js_add PosInf _ = PosInf"
| "js_add _ PosInf = PosInf"
| "js_add NegInf _ = NegInf"
| "js_add _ NegInf = NegInf"

fun js_neg :: "jsnum \<Rightarrow> jsnum" where
  "js_neg (Num x) = Num (- x)"
| "js_neg NaN = NaN"
| "js_neg PosInf = NegInf"
| "js_neg NegInf = PosInf"

definition js_sub :: "jsnum \<Rightarrow> jsnum \<Rightarrow> jsnum" where
  "js_sub a b = js_add a (js_neg b)"

text \<open>The sign of a number that is not \<open>NaN\<close>: \<open>-1\<close>, \<open>0\<close> or \<open>1\<close>.\<close>

fun js_sign :: "jsnum \<Rightarrow> int" where
  "js_sign (Num x) = (if x < 0 then - 1 else if x = 0 then 0 else 1)"
| "js_sign PosInf = 1"
| "js_sign NegInf = - 1"
| "js_sign NaN = 0"

fun js_mul :: "jsnum \<Rightarrow> jsnum \<Rightarrow> jsnum" where
  "js_mul (Num x) (Num y) = Num (x * y)"
| "js_mul NaN _ = NaN"
| "js_mul _ NaN = NaN"
| "js_mul a b =
     (if js_sign a = 0 \<or> js_sign b = 0 then NaN
      else if js_sign a = js_sign b then PosInf else NegInf)"

fun js_div :: "jsnum \<Rightarrow> jsnum \<Rightarrow> jsnum" where
  "js_div NaN _ = NaN"
| "js_div _ NaN = NaN"
| "js_div (Num x) (Num y) =
     (if y = 0 then (if x = 0 then NaN else if 0 < x then PosInf else NegInf)
      else Num (x / y))"
| "js_div (Num x) _ = Num 0"
| "js_div a (Num y) =
     (if js_sign a = (if y < 0 then - 1 else 1) then PosInf else NegInf)"
| "js_div _ _ = NaN"

fun Math_sqrt :: "jsnum \<Rightarrow> jsnum" where
  "Math_sqrt (Num x) = (if x < 0 then NaN else Num (sqrt x))"
| "Math_sqrt PosInf = PosInf"
| "Math_sqrt _ = NaN"

text \<open>The comparison \<open>a >= b\<close>: false as soon as one side is \<open>NaN\<close>.\<close>

fun js_ge :: "jsnum \<Rightarrow> jsnum \<Rightarrow> bool" where
  "js_ge NaN _ = False"
| "js_ge _ NaN = False"
| "js_ge (Num x) (Num y) = (y \<le> x)"
| "js_ge PosInf _ = True"
| "js_ge _ NegInf = True"
| "js_ge _ _ = False"

subsection \<open>Arrays and objects\<close>

text \<open>
  \<open>xs.slice(0, e)\<close> for an integer \<open>e\<close>: a negative end counts from the end of the array.
\<close>

definition slice0 :: "'a list \<Rightarrow> int \<Rightarrow> 'a list" where
  "slice0 xs e = (if e < 0 then take (nat (int (length xs) + e)) xs else take (nat e) xs)"

text \<open>\<open>xs[i]\<close>, which is \<open>undefined\<close> (\<open>None\<close>) out of range.\<close>

definition nth_opt :: "'a list \<Rightarrow> nat \<Rightarrow> 'a option" where
  "nth_opt xs i = (if i < length xs then Some (xs ! i) else None)"

text \<open>
  The loop \<open>for (i = 0; i < xs.length; i += n) xs.slice(i, i + n)\<close>: the successive
  slices of \<open>n\<close> elements. (With a step of \<open>0\<close> the loop would not end; the two steps of the
  program are the constants 100 and 5.)
\<close>

function slices :: "nat \<Rightarrow> 'a list \<Rightarrow> 'a list list" where
  "slices n xs = (if xs = [] \<or> n = 0 then [] else take n xs # slices n (drop n xs))"
  by pat_completeness auto
termination
  by (relation "measure (\<lambda>(n, xs). length xs)") auto

declare slices.simps [simp del]

text \<open>
  \<open>xs.sort(cmp)\<close>. The comparator's result is read by its sign, and \<open>NaN\<close> counts as
  \<open>0\<close>. The sort is stable: an element stays in front of the later elements it does not
  compare greater than. It is written as an insertion sort, each element inserted in front
  of the sorted rest of the array. For a comparator that is consistent this is the one
  stable sorted order. For one that is not (it returns \<open>NaN\<close> against some element) the
  language leaves the order to the engine, and the model gives the order of this insertion
  sort; where every comparison of neighbours returns \<open>0\<close> or \<open>NaN\<close>, as in the example with
  a \<open>NaN\<close> score below, the array is taken as sorted and left as it is, which is also what
  the run detection of V8's merge sort does.
\<close>

fun sort_insert :: "('a \<Rightarrow> 'a \<Rightarrow> jsnum) \<Rightarrow> 'a \<Rightarrow> 'a list \<Rightarrow> 'a list" where
  "sort_insert cmp x [] = [x]"
| "sort_insert cmp x (y # ys) =
     (if js_sign (cmp x y) = 1 then y # sort_insert cmp x ys else x # y # ys)"

definition Array_sort :: "('a \<Rightarrow> 'a \<Rightarrow> jsnum) \<Rightarrow> 'a list \<Rightarrow> 'a list" where
  "Array_sort cmp xs = foldr (sort_insert cmp) xs []"

text \<open>
  An object with string keys is the list of its entries in insertion order, keys unique.
  \<open>obj[k] = v\<close> replaces the value of an existing key in place and appends a new key;
  \<open>obj[k]\<close> is \<open>map_of obj k\<close>.
\<close>

fun obj_set :: "string \<Rightarrow> 'v \<Rightarrow> (string \<times> 'v) list \<Rightarrow> (string \<times> 'v) list" where
  "obj_set k v [] = [(k, v)]"
| "obj_set k v (p # ps) = (if fst p = k then (k, v) # ps else p # obj_set k v ps)"

subsection \<open>Strings\<close>

text \<open>
  A string is the list of its code units; the model covers the code units below 256.
  White space, for \<open>trim\<close> and for \<open>\s\<close> in a regular expression, is then tab, line feed,
  vertical tab, form feed, carriage return, space and the no-break space.
\<close>

definition LF :: char where
  "LF = CHR 0x0A"

definition is_space :: "char \<Rightarrow> bool" where
  "is_space c = (c = CHR 0x09 \<or> c = CHR 0x0A \<or> c = CHR 0x0B \<or> c = CHR 0x0C \<or> c = CHR 0x0D
     \<or> c = CHR '' '' \<or> c = CHR 0xA0)"

definition trim :: "string \<Rightarrow> string" where
  "trim s = rev (dropWhile is_space (rev (dropWhile is_space s)))"

text \<open>\<open>s.split('\n')\<close>: always at least one piece.\<close>

fun split_lines :: "string \<Rightarrow> string list" where
  "split_lines [] = [[]]"
| "split_lines (c # cs) =
     (if c = LF then [] # split_lines cs
      else case split_lines cs of l # ls \<Rightarrow> (c # l) # ls | [] \<Rightarrow> [[c]])"

text \<open>\<open>xs.join(sep)\<close>.\<close>

fun join :: "string \<Rightarrow> string list \<Rightarrow> string" where
  "join sep [] = []"
| "join sep [x] = x"
| "join sep (x # y # ys) = x @ sep @ join sep (y # ys)"

text \<open>
  \<open>s.split(/\n\n+/)\<close>: the pieces between the maximal runs of two or more line feeds.
\<close>

function split_paragraphs :: "string \<Rightarrow> string list" where
  "split_paragraphs [] = [[]]"
| "split_paragraphs (c # cs) =
     (if c = LF \<and> cs \<noteq> [] \<and> hd cs = LF then [] # split_paragraphs (dropWhile (\<lambda>d. d = LF) cs)
      else case split_paragraphs cs of p # ps \<Rightarrow> (c # p) # ps | [] \<Rightarrow> [[c]])"
  by pat_completeness auto
termination
  by (relation "measure length") (auto simp: length_dropWhile_le less_Suc_eq_le)

text \<open>\<open>s.includes(pat)\<close>.\<close>

fun str_includes :: "string \<Rightarrow> string \<Rightarrow> bool" where
  "str_includes [] pat = (pat = [])"
| "str_includes (c # cs) pat = (take (length pat) (c # cs) = pat \<or> str_includes cs pat)"

text \<open>\<open>s.replace(pat, rep)\<close> for a string pattern: the first occurrence only.\<close>

fun replace_first :: "string \<Rightarrow> string \<Rightarrow> string \<Rightarrow> string" where
  "replace_first pat rep [] = (if pat = [] then rep else [])"
| "replace_first pat rep (c # cs) =
     (if take (length pat) (c # cs) = pat then rep @ drop (length pat) (c # cs)
      else c # replace_first pat rep cs)"

text \<open>A non-negative integer, and an integer, in a template string.\<close>

function show_nat :: "nat \<Rightarrow> string" where
  "show_nat n =
     (if n < 10 then [''0123456789'' ! n] else show_nat (n div 10) @ [''0123456789'' ! (n mod 10)])"
  by pat_completeness auto
termination
  by (relation "measure id") auto

declare show_nat.simps [simp del]

definition show_int :: "int \<Rightarrow> string" where
  "show_int i = (if i < 0 then CHR ''-'' # show_nat (nat (- i)) else show_nat (nat i))"

section \<open>Persisted state\<close>

text \<open>What a run can throw.\<close>

datatype error =
    SyntaxError     \<comment> \<open>\<open>JSON.parse\<close> on malformed text\<close>
  | EmbeddingError  \<comment> \<open>the embedding provider's call failed\<close>
  | TypeError       \<comment> \<open>a property read on \<open>undefined\<close>\<close>
  | UsageError      \<comment> \<open>\<open>process.exit(1)\<close> after the usage text\<close>

text \<open>
  A JSON file on disk: it does not exist, it exists and its text is not JSON of the
  expected shape, or it holds a value.
\<close>

datatype 'a json_file = Missing | Malformed | Parsed 'a

text \<open>The \<open>meta\<close> attachment of a chat chunk.\<close>

record chunk_meta =
  meta_source :: string
  meta_label :: string
  meta_sessionId :: string
  meta_timestamp :: int

text \<open>
  A chunk record of the store (an element of \<open>vectors.json\<close>). Line numbers are natural
  numbers; \<open>vector\<close> is absent (\<open>None\<close>) when the record was built from an \<open>undefined\<close>
  embedding.
\<close>

record doc =
  doc_id :: string
  doc_file :: string
  doc_startLine :: nat
  doc_endLine :: nat
  doc_heading :: string
  doc_text :: string
  doc_vector :: "real list option"
  doc_indexedAt :: int
  doc_meta :: "chunk_meta option"

text \<open>
  The file-modification tracker \<open>file-meta.json\<close>: an object from relative path to
  \<open>{mtime}\<close>.
\<close>

type_synonym file_meta = "(string \<times> real) list"

text \<open>
  The session tracker \<open>session-ingest-state.json\<close>: \<open>{files, lastRun}\<close>, where \<open>files\<close> is an
  object from session id to \<open>{mtime, offset}\<close>. On disk either field may be absent.
\<close>

record file_state =
  fs_mtime :: real
  fs_offset :: nat

record stored_state =
  stored_files :: "(string \<times> file_state) list option"
  stored_lastRun :: "int option"

record state =
  files :: "(string \<times> file_state) list"
  lastRun :: "int option"

text \<open>The three files under the data directory.\<close>

record disk =
  index_file :: "doc list json_file"
  meta_file :: "file_meta json_file"
  state_file :: "stored_state json_file"

datatype file_name = INDEX_FILE | META_FILE | STATE_FILE

text \<open>
  What a run of one of the commands leaves: its result or the error it threw, the disk,
  the batches of texts it submitted to the embedding provider, and the files it wrote, both
  in order.
\<close>

record 'r run =
  outcome :: "error + 'r"
  disk_after :: disk
  submitted :: "string list list"
  written :: "file_name list"

section \<open>lib.js\<close>

text \<open>\<open>loadIndex\<close>: no file gives the empty store; \<open>JSON.parse\<close> is not guarded.\<close>

definition loadIndex :: "doc list json_file \<Rightarrow> error + doc list" where
  "loadIndex f = (case f of Missing \<Rightarrow> Inr [] | Malformed \<Rightarrow> Inl SyntaxError | Parsed ds \<Rightarrow> Inr ds)"

definition saveIndex :: "doc list \<Rightarrow> doc list json_file" where
  "saveIndex docs = Parsed docs"

definition loadFileMeta :: "file_meta json_file \<Rightarrow> error + file_meta" where
  "loadFileMeta f = (case f of Missing \<Rightarrow> Inr [] | Malformed \<Rightarrow> Inl SyntaxError | Parsed m \<Rightarrow> Inr m)"

definition saveFileMeta :: "file_meta \<Rightarrow> file_meta json_file" where
  "saveFileMeta m = Parsed m"

text \<open>
  The embedding provider, \<open>openai.embeddings.create\<close>: one call takes a batch of texts
  and gives their embeddings, or fails (\<open>None\<close>).
\<close>

type_synonym provider = "string list \<Rightarrow> real list list option"

text \<open>
  \<open>getEmbeddings\<close>: the texts go out as they are given, in batches of 100, one after the
  other; the first failing call throws. The second component is the list of batches
  submitted, in order.
\<close>

definition BATCH_SIZE :: nat where
  "BATCH_SIZE = 100"

fun embed_batches :: "provider \<Rightarrow> string list list \<Rightarrow> real list list
    \<Rightarrow> string list list \<Rightarrow> (error + real list list) \<times> string list list" where
  "embed_batches create [] acc sent = (Inr acc, sent)"
| "embed_batches create (b # bs) acc sent =
     (case create b of
        None \<Rightarrow> (Inl EmbeddingError, sent @ [b])
      | Some vs \<Rightarrow> embed_batches create bs (acc @ vs) (sent @ [b]))"

definition getEmbeddings :: "provider \<Rightarrow> string list
    \<Rightarrow> (error + real list list) \<times> string list list" where
  "getEmbeddings create texts = embed_batches create (slices BATCH_SIZE texts) [] []"

text \<open>
  \<open>getEmbedding\<close>: the first embedding of a one-text request (\<open>None\<close> is \<open>undefined\<close>, when
  the provider answered with no embedding).
\<close>

definition getEmbedding :: "provider \<Rightarrow> string
    \<Rightarrow> (error + real list option) \<times> string list list" where
  "getEmbedding create t =
     (case getEmbeddings create [t] of
        (Inl e, sent) \<Rightarrow> (Inl e, sent)
      | (Inr vs, sent) \<Rightarrow> (Inr (nth_opt vs 0), sent))"

text \<open>
  \<open>cosineSimilarity(a, b)\<close>. The loop runs over the indices of \<open>a\<close>; where \<open>b\<close> is
  shorter, \<open>b[i]\<close> is \<open>undefined\<close> and the products with it are \<open>NaN\<close>. The
  accumulators are \<open>(dot, na, nb)\<close>. When \<open>b\<close> itself is \<open>undefined\<close> (a stored chunk
  without a vector), the first \<open>b[i]\<close> throws.
\<close>

fun cosine_loop :: "real list \<Rightarrow> real list \<Rightarrow> jsnum \<times> jsnum \<times> jsnum \<Rightarrow> jsnum \<times> jsnum \<times> jsnum" where
  "cosine_loop [] b acc = acc"
| "cosine_loop (x # a) [] (dot, na, nb) =
     cosine_loop a [] (js_add dot NaN, js_add na (Num (x * x)), js_add nb NaN)"
| "cosine_loop (x # a) (y # b) (dot, na, nb) =
     cosine_loop a b (js_add dot (Num (x * y)), js_add na (Num (x * x)), js_add nb (Num (y * y)))"

definition cosine :: "real list \<Rightarrow> real list \<Rightarrow> jsnum" where
  "cosine a b =
     (case cosine_loop a b (Num 0, Num 0, Num 0) of
        (dot, na, nb) \<Rightarrow> js_div dot (js_mul (Math_sqrt na) (Math_sqrt nb)))"

definition cosineSimilarity :: "real list \<Rightarrow> real list option \<Rightarrow> error + jsnum" where
  "cosineSimilarity a b =
     (case b of
        Some v \<Rightarrow> Inr (cosine a v)
      | None \<Rightarrow> if a = [] then Inr (cosine [] []) else Inl TypeError)"

subsection \<open>chunkMarkdown\<close>

record chunk =
  chunk_text :: string
  chunk_file :: string
  chunk_startLine :: nat
  chunk_endLine :: nat
  chunk_heading :: string

text \<open>The section being accumulated, \<open>current\<close>.\<close>

record current =
  cur_lines :: "string list"
  cur_startLine :: nat
  cur_heading :: string

definition maxChars :: nat where
  "maxChars = 3000"

text \<open>
  The loop of \<open>flush\<close> over the paragraphs of an oversized section. Its state is
  \<open>(chunks, buf, bufStart, lineOffset)\<close>.
\<close>

fun pack :: "string \<Rightarrow> current \<Rightarrow> string list \<Rightarrow> chunk list \<times> string \<times> nat \<times> nat
    \<Rightarrow> chunk list \<times> string \<times> nat \<times> nat" where
  "pack filePath cur [] st = st"
| "pack filePath cur (para # paras) (chunks, buf, bufStart, lineOffset) =
     (let (chunks1, buf1, bufStart1) =
            (if length buf + length para > maxChars \<and> length buf > 100
             then (chunks @ [\<lparr> chunk_text = trim buf, chunk_file = filePath,
                               chunk_startLine = bufStart,
                               chunk_endLine = bufStart + length (split_lines buf) - 1,
                               chunk_heading = cur_heading cur \<rparr>],
                   [], cur_startLine cur + lineOffset)
             else (chunks, buf, bufStart));
          buf2 = buf1 @ (if buf1 \<noteq> [] then [LF, LF] else []) @ para;
          lineOffset2 = lineOffset + (length (split_lines para) + 1)
      in pack filePath cur paras (chunks1, buf2, bufStart1, lineOffset2))"

definition flush :: "string \<Rightarrow> current \<Rightarrow> chunk list \<Rightarrow> chunk list" where
  "flush filePath cur chunks =
     (let content = trim (join [LF] (cur_lines cur)) in
      if length content < 20 then chunks
      else if length content > maxChars then
        (case pack filePath cur (split_paragraphs content) (chunks, [], cur_startLine cur, 0) of
           (chunks1, buf, bufStart, lineOffset) \<Rightarrow>
             if length (trim buf) > 20
             then chunks1 @ [\<lparr> chunk_text = trim buf, chunk_file = filePath,
                               chunk_startLine = bufStart,
                               chunk_endLine = cur_startLine cur + length (cur_lines cur) - 1,
                               chunk_heading = cur_heading cur \<rparr>]
             else chunks1)
      else chunks @ [\<lparr> chunk_text = content, chunk_file = filePath,
                        chunk_startLine = cur_startLine cur,
                        chunk_endLine = cur_startLine cur + length (cur_lines cur) - 1,
                        chunk_heading = cur_heading cur \<rparr>])"

text \<open>\<open>/^#{1,3}\s/.test(line)\<close>: one to three \<open>#\<close>, then a white-space character.\<close>

definition is_heading :: "string \<Rightarrow> bool" where
  "is_heading line =
     (let n = length (takeWhile (\<lambda>c. c = CHR ''#'') line) in
      1 \<le> n \<and> n \<le> 3 \<and> (case drop n line of [] \<Rightarrow> False | c # _ \<Rightarrow> is_space c))"

text \<open>\<open>line.replace(/^#+\s*/, '')\<close>.\<close>

definition strip_heading :: "string \<Rightarrow> string" where
  "strip_heading line =
     (case takeWhile (\<lambda>c. c = CHR ''#'') line of
        [] \<Rightarrow> line
      | _ \<Rightarrow> dropWhile is_space (dropWhile (\<lambda>c. c = CHR ''#'') line))"

text \<open>The loop of \<open>chunkMarkdown\<close> over the lines, from index \<open>i\<close>.\<close>

fun chunk_lines :: "string \<Rightarrow> string list \<Rightarrow> nat \<Rightarrow> current \<Rightarrow> chunk list
    \<Rightarrow> current \<times> chunk list" where
  "chunk_lines filePath [] i cur chunks = (cur, chunks)"
| "chunk_lines filePath (line # rest) i cur chunks =
     (if is_heading line \<and> length (cur_lines cur) > 0
      then chunk_lines filePath rest (i + 1)
             \<lparr> cur_lines = [line], cur_startLine = i + 1, cur_heading = strip_heading line \<rparr>
             (flush filePath cur chunks)
      else chunk_lines filePath rest (i + 1) (cur\<lparr> cur_lines := cur_lines cur @ [line] \<rparr>) chunks)"

definition chunkMarkdown :: "string \<Rightarrow> string \<Rightarrow> chunk list" where
  "chunkMarkdown text filePath =
     (case chunk_lines filePath (split_lines text) 0
             \<lparr> cur_lines = [], cur_startLine = 1, cur_heading = [] \<rparr> [] of
        (cur, chunks) \<Rightarrow> flush filePath cur chunks)"

section \<open>search.js\<close>

record scored =
  res_file :: string
  res_startLine :: nat
  res_endLine :: nat
  res_heading :: string
  score :: jsnum
  preview :: string

definition score_doc :: "real list \<Rightarrow> doc \<Rightarrow> error + scored" where
  "score_doc queryVec d =
     (case cosineSimilarity queryVec (doc_vector d) of
        Inl e \<Rightarrow> Inl e
      | Inr s \<Rightarrow> Inr \<lparr> res_file = doc_file d, res_startLine = doc_startLine d,
                        res_endLine = doc_endLine d, res_heading = doc_heading d, score = s,
                        preview = take 300 (doc_text d) \<rparr>)"

text \<open>\<open>docs.map(doc => ...)\<close>, which throws as soon as one score does.\<close>

fun score_all :: "real list \<Rightarrow> doc list \<Rightarrow> error + scored list" where
  "score_all queryVec [] = Inr []"
| "score_all queryVec (d # ds) =
     (case score_doc queryVec d of
        Inl e \<Rightarrow> Inl e
      | Inr r \<Rightarrow> (case score_all queryVec ds of Inl e \<Rightarrow> Inl e | Inr rs \<Rightarrow> Inr (r # rs)))"

text \<open>The comparator \<open>(a, b) => b.score - a.score\<close>.\<close>

definition by_score_desc :: "scored \<Rightarrow> scored \<Rightarrow> jsnum" where
  "by_score_desc a b = js_sub (score b) (score a)"

text \<open>
  The ranking: sort the scored chunks, keep the scores that are at least \<open>minScore\<close>, cut
  to \<open>limit\<close>.
\<close>

definition rank :: "scored list \<Rightarrow> int \<Rightarrow> jsnum \<Rightarrow> scored list" where
  "rank scoredl limit minScore =
     slice0 (filter (\<lambda>r. js_ge (score r) minScore) (Array_sort by_score_desc scoredl)) limit"

datatype search_output =
    Index_empty
  | Results string "scored list" nat

text \<open>
  \<open>main\<close> of search.js, after the arguments are read: \<open>query\<close>, \<open>limit\<close> (default 10)
  and \<open>minScore\<close> (default 0.3). The query goes to the embedding client as it is.
\<close>

definition search_main :: "provider \<Rightarrow> string \<Rightarrow> int \<Rightarrow> jsnum \<Rightarrow> disk \<Rightarrow> search_output run" where
  "search_main create query limit minScore d =
     (if query = [] then \<lparr> outcome = Inl UsageError, disk_after = d, submitted = [], written = [] \<rparr>
      else case loadIndex (index_file d) of
        Inl e \<Rightarrow> \<lparr> outcome = Inl e, disk_after = d, submitted = [], written = [] \<rparr>
      | Inr docs \<Rightarrow>
          if length docs = 0
          then \<lparr> outcome = Inr Index_empty, disk_after = d, submitted = [], written = [] \<rparr>
          else (case getEmbedding create query of
            (Inl e, sent) \<Rightarrow> \<lparr> outcome = Inl e, disk_after = d, submitted = sent, written = [] \<rparr>
          | (Inr None, sent) \<Rightarrow>
              \<lparr> outcome = Inl TypeError, disk_after = d, submitted = sent, written = [] \<rparr>
          | (Inr (Some queryVec), sent) \<Rightarrow>
              (case score_all queryVec docs of
                 Inl e \<Rightarrow> \<lparr> outcome = Inl e, disk_after = d, submitted = sent, written = [] \<rparr>
               | Inr scoredl \<Rightarrow>
                   \<lparr> outcome = Inr (Results query (rank scoredl limit minScore) (length docs)),
                     disk_after = d, submitted = sent, written = [] \<rparr>)))"

section \<open>index.js\<close>

text \<open>
  A file of the crawl (\<open>findFiles\<close>, then \<open>statSync\<close> and \<open>readFileSync\<close>): its path relative
  to the workspace, its modification time and its content.
\<close>

record crawled =
  relPath :: string
  mtime :: real
  content :: string

text \<open>The test \<open>!full && fileMeta[relPath] && fileMeta[relPath].mtime >= mtime\<close>.\<close>

definition unchanged :: "bool \<Rightarrow> file_meta \<Rightarrow> crawled \<Rightarrow> bool" where
  "unchanged full fileMeta f =
     (\<not> full \<and> (case map_of fileMeta (relPath f) of None \<Rightarrow> False | Some m \<Rightarrow> mtime f \<le> m))"

definition toIndex_of :: "bool \<Rightarrow> file_meta \<Rightarrow> crawled list \<Rightarrow> crawled list" where
  "toIndex_of full fileMeta fs = filter (\<lambda>f. \<not> unchanged full fileMeta f) fs"

text \<open>
  \<open>keptDocs\<close>: the stored chunks whose file is not reindexed and is in the current crawl.
\<close>

definition keptDocs_of :: "crawled list \<Rightarrow> crawled list \<Rightarrow> doc list \<Rightarrow> doc list" where
  "keptDocs_of toIndex fs existingDocs =
     filter (\<lambda>d. doc_file d \<notin> set (map relPath toIndex) \<and> doc_file d \<in> set (map relPath fs))
       existingDocs"

definition allChunks_of :: "crawled list \<Rightarrow> chunk list" where
  "allChunks_of toIndex = concat (map (\<lambda>f. chunkMarkdown (content f) (relPath f)) toIndex)"

text \<open>\<open>newDocs\<close>; \<open>now\<close> is \<open>Date.now()\<close>, read once for the run.\<close>

definition newDocs_of :: "int \<Rightarrow> chunk list \<Rightarrow> real list list \<Rightarrow> doc list" where
  "newDocs_of now allChunks embeddings =
     map (\<lambda>(i, c). \<lparr> doc_id = chunk_file c @ '':'' @ show_nat (chunk_startLine c),
                      doc_file = chunk_file c, doc_startLine = chunk_startLine c,
                      doc_endLine = chunk_endLine c, doc_heading = chunk_heading c,
                      doc_text = chunk_text c, doc_vector = nth_opt embeddings i,
                      doc_indexedAt = now, doc_meta = None \<rparr>)
       (enumerate 0 allChunks)"

text \<open>
  \<open>newMeta\<close>: the tracker without the keys that are not in the crawl, then with the
  modification time of every reindexed file.
\<close>

definition newMeta_of :: "file_meta \<Rightarrow> crawled list \<Rightarrow> crawled list \<Rightarrow> file_meta" where
  "newMeta_of fileMeta fs toIndex =
     foldl (\<lambda>m f. obj_set (relPath f) (mtime f) m)
       (filter (\<lambda>(k, v). k \<in> set (map relPath fs)) fileMeta) toIndex"

datatype index_report =
    No_files_changed nat
  | No_content_to_index nat
  | Indexed nat nat nat "string list"

text \<open>
  \<open>main\<close> of index.js, after the arguments are read (\<open>full\<close> is \<open>--full\<close>) and the
  workspace is crawled.
\<close>

definition index_main :: "provider \<Rightarrow> int \<Rightarrow> bool \<Rightarrow> crawled list \<Rightarrow> disk \<Rightarrow> index_report run" where
  "index_main create now full fs d =
     (case (if full then Inr [] else loadFileMeta (meta_file d)) of
        Inl e \<Rightarrow> \<lparr> outcome = Inl e, disk_after = d, submitted = [], written = [] \<rparr>
      | Inr fileMeta \<Rightarrow>
     (case (if full then Inr [] else loadIndex (index_file d)) of
        Inl e \<Rightarrow> \<lparr> outcome = Inl e, disk_after = d, submitted = [], written = [] \<rparr>
      | Inr existingDocs \<Rightarrow>
          let toIndex = toIndex_of full fileMeta fs in
          if length toIndex = 0
          then \<lparr> outcome = Inr (No_files_changed (length existingDocs)), disk_after = d,
                 submitted = [], written = [] \<rparr>
          else
            let keptDocs = keptDocs_of toIndex fs existingDocs;
                allChunks = allChunks_of toIndex in
            if length allChunks = 0
            then \<lparr> outcome = Inr (No_content_to_index (length keptDocs)),
                   disk_after = d\<lparr> index_file := saveIndex keptDocs \<rparr>,
                   submitted = [], written = [INDEX_FILE] \<rparr>
            else
              (case getEmbeddings create (map (\<lambda>c. take 8000 (chunk_text c)) allChunks) of
                 (Inl e, sent) \<Rightarrow>
                   \<lparr> outcome = Inl e, disk_after = d, submitted = sent, written = [] \<rparr>
               | (Inr embeddings, sent) \<Rightarrow>
                   let newDocs = newDocs_of now allChunks embeddings;
                       finalDocs = keptDocs @ newDocs;
                       newMeta = newMeta_of fileMeta fs toIndex in
                   \<lparr> outcome = Inr (Indexed (length toIndex) (length newDocs) (length finalDocs)
                                       (map relPath toIndex)),
                     disk_after = d\<lparr> index_file := saveIndex finalDocs,
                                      meta_file := saveFileMeta newMeta \<rparr>,
                     submitted = sent, written = [INDEX_FILE, META_FILE] \<rparr>)))"

section \<open>ingest.js\<close>

datatype ingest_report =
    No_content_to_ingest
  | Ingested nat nat

text \<open>
  \<open>main\<close> of ingest.js, after the arguments are read: \<open>source\<close> (default \<open>adhoc\<close>), \<open>text\<close>,
  and for \<open>--file\<close> the base name and the content of the file.
\<close>

definition ingest_main :: "provider \<Rightarrow> int \<Rightarrow> string \<Rightarrow> string \<Rightarrow> (string \<times> string) option
    \<Rightarrow> disk \<Rightarrow> ingest_report run" where
  "ingest_main create now source0 text0 file d =
     (if text0 = [] \<and> file = None
      then \<lparr> outcome = Inl UsageError, disk_after = d, submitted = [], written = [] \<rparr>
      else
        let text = (case file of None \<Rightarrow> text0 | Some (basename, file_content) \<Rightarrow> file_content);
            source = (case file of None \<Rightarrow> source0
                      | Some (basename, file_content) \<Rightarrow>
                          if source0 = ''adhoc'' then basename else source0);
            chunks = chunkMarkdown text (''ingest:'' @ source) in
        if length chunks = 0
        then \<lparr> outcome = Inr No_content_to_ingest, disk_after = d, submitted = [], written = [] \<rparr>
        else
          (case getEmbeddings create (map (\<lambda>c. take 8000 (chunk_text c)) chunks) of
             (Inl e, sent) \<Rightarrow> \<lparr> outcome = Inl e, disk_after = d, submitted = sent, written = [] \<rparr>
           | (Inr embeddings, sent) \<Rightarrow>
               (case loadIndex (index_file d) of
                  Inl e \<Rightarrow> \<lparr> outcome = Inl e, disk_after = d, submitted = sent, written = [] \<rparr>
                | Inr docs \<Rightarrow>
                    let filtered = filter (\<lambda>x. doc_file x \<noteq> ''ingest:'' @ source) docs;
                        newDocs = map (\<lambda>(i, c).
                            \<lparr> doc_id = ''ingest:'' @ source @ '':'' @ show_nat i,
                              doc_file = ''ingest:'' @ source,
                              doc_startLine = chunk_startLine c, doc_endLine = chunk_endLine c,
                              doc_heading = chunk_heading c, doc_text = chunk_text c,
                              doc_vector = nth_opt embeddings i, doc_indexedAt = now,
                              doc_meta = None \<rparr>) (enumerate 0 chunks) in
                    \<lparr> outcome = Inr (Ingested (length newDocs) (length filtered + length newDocs)),
                      disk_after = d\<lparr> index_file := saveIndex (filtered @ newDocs) \<rparr>,
                      submitted = sent, written = [INDEX_FILE] \<rparr>)))"

section \<open>ingest-sessions.js\<close>

text \<open>
  \<open>loadState\<close>: no file and a file that does not parse both give the default state; a
  parsed state without \<open>files\<close> gets the empty object.
\<close>

definition loadState :: "stored_state json_file \<Rightarrow> state" where
  "loadState f =
     (case f of
        Missing \<Rightarrow> \<lparr> files = [], lastRun = Some 0 \<rparr>
      | Malformed \<Rightarrow> \<lparr> files = [], lastRun = Some 0 \<rparr>
      | Parsed s \<Rightarrow> \<lparr> files = (case stored_files s of None \<Rightarrow> [] | Some fl \<Rightarrow> fl),
                        lastRun = stored_lastRun s \<rparr>)"

definition saveState :: "state \<Rightarrow> int \<Rightarrow> stored_state json_file" where
  "saveState st now = Parsed \<lparr> stored_files = Some (files st), stored_lastRun = Some now \<rparr>"

text \<open>
  An entry of the sessions index \<open>sessions.json\<close>: its \<open>sessionId\<close> (empty when absent) and,
  when the file \<open><sessionId>.jsonl\<close> exists, its modification time and its text.
\<close>

record index_entry =
  ie_sessionId :: string
  ie_log :: "(real \<times> string) option"

record session_file =
  sf_key :: string
  sf_sessionId :: string
  sf_text :: string
  sf_mtime :: real
  sf_label :: string

definition getActiveSessionFiles :: "int \<Rightarrow> (string \<times> index_entry) list json_file
    \<Rightarrow> error + session_file list" where
  "getActiveSessionFiles now sessions_index =
     (case sessions_index of
        Missing \<Rightarrow> Inr []
      | Malformed \<Rightarrow> Inl SyntaxError
      | Parsed index \<Rightarrow>
          Inr (concat (map (\<lambda>(key, entry).
            if ie_sessionId entry = [] then []
            else (case ie_log entry of
                    None \<Rightarrow> []
                  | Some (m, t) \<Rightarrow>
                      if m < of_int (now - 24 * 60 * 60 * 1000) then []
                      else [\<lparr> sf_key = key, sf_sessionId = ie_sessionId entry, sf_text = t,
                              sf_mtime = m,
                              sf_label = replace_first ''agent:main:'' [] key \<rparr>])) index)))"

text \<open>
  A message: its \<open>role\<close> (empty when absent) and its \<open>content\<close>, a string, an array of
  parts \<open>{type, text}\<close> (\<open>text\<close> empty when absent), or nothing.
\<close>

record part =
  part_type :: string
  part_text :: string

datatype msg_content = Text string | Parts "part list" | No_content

record message =
  role :: string
  msg_content :: msg_content

text \<open>
  A decoded line of a session log: the fields \<open>type\<close>, \<open>message\<close>, \<open>role\<close> and \<open>content\<close> of
  the object. (\<open>parseJSONL\<close> also stores \<open>timestamp\<close> and \<open>id\<close> in the message; nothing reads
  them.)
\<close>

record entry =
  entry_type :: string
  entry_message :: "message option"
  entry_role :: string
  entry_content :: msg_content

definition truthy :: "msg_content \<Rightarrow> bool" where
  "truthy c = (case c of Text s \<Rightarrow> s \<noteq> [] | Parts ps \<Rightarrow> True | No_content \<Rightarrow> False)"

text \<open>
  \<open>parseJSONL\<close>. \<open>JSON_parse\<close> decodes one line, \<open>None\<close> when \<open>JSON.parse\<close> throws; such a
  line is skipped.
\<close>

definition parse_line :: "(string \<Rightarrow> entry option) \<Rightarrow> string \<Rightarrow> message list" where
  "parse_line JSON_parse line =
     (case JSON_parse line of
        None \<Rightarrow> []
      | Some e \<Rightarrow>
          (case (if entry_type e = ''message'' then entry_message e else None) of
             Some msg \<Rightarrow> [msg]
           | None \<Rightarrow>
               if entry_role e \<noteq> [] \<and> truthy (entry_content e)
               then [\<lparr> role = entry_role e, msg_content = entry_content e \<rparr>]
               else []))"

definition parseJSONL :: "(string \<Rightarrow> entry option) \<Rightarrow> string \<Rightarrow> message list" where
  "parseJSONL JSON_parse text =
     concat (map (parse_line JSON_parse) (filter (\<lambda>l. trim l \<noteq> []) (split_lines text)))"

definition extractText :: "msg_content \<Rightarrow> string" where
  "extractText c =
     (case c of
        Text s \<Rightarrow> s
      | Parts ps \<Rightarrow> join [LF] (map part_text (filter (\<lambda>p. part_type p = ''text'') ps))
      | No_content \<Rightarrow> [])"

definition shouldSkipMessage :: "message \<Rightarrow> bool" where
  "shouldSkipMessage msg =
     (if role msg = ''toolResult'' \<or> role msg = ''tool'' \<or> role msg = ''system'' then True
      else let c = extractText (msg_content msg) in
        if c = [] \<or> length c < 10 then True
        else if str_includes c ''HEARTBEAT_OK'' then True
        else if str_includes c ''Read HEARTBEAT.md if it exists'' then True
        else if trim c = ''NO_REPLY'' then True
        else False)"

definition formatMsg :: "message \<Rightarrow> string \<Rightarrow> string" where
  "formatMsg msg label =
     (let r = (if role msg = ''user'' then ''Human'' else ''Assistant'');
          c = extractText (msg_content msg);
          truncated = (if length c > 2000 then take 2000 c @ ''...'' else c)
      in ''['' @ label @ ''] '' @ r @ '': '' @ truncated)"

text \<open>
  The loop \<open>for (let i = lastOffset; i < messages.length; i++)\<close>: the messages from index
  \<open>lastOffset\<close> on that are not skipped, each with its index.
\<close>

definition select_from :: "nat \<Rightarrow> message list \<Rightarrow> (nat \<times> message) list" where
  "select_from lastOffset messages =
     filter (\<lambda>(i, msg). \<not> shouldSkipMessage msg) (drop lastOffset (enumerate 0 messages))"

definition MSGS_PER_CHUNK :: nat where
  "MSGS_PER_CHUNK = 5"

text \<open>The chunk texts of the new messages of one session.\<close>

definition chunk_texts :: "string \<Rightarrow> message list \<Rightarrow> string list" where
  "chunk_texts label newMessages =
     filter (\<lambda>t. \<not> length t < 30)
       (map (\<lambda>batch. join [LF, LF] (map (\<lambda>m. formatMsg m label) batch))
          (slices MSGS_PER_CHUNK newMessages))"

text \<open>\<open>(state.files || {})[sessionId] || {}\<close>, then \<open>.mtime || 0\<close> and \<open>.offset || 0\<close>.\<close>

definition lastMtime_of :: "(string \<times> file_state) list \<Rightarrow> string \<Rightarrow> real" where
  "lastMtime_of fl sid = (case map_of fl sid of None \<Rightarrow> 0 | Some s \<Rightarrow> fs_mtime s)"

definition lastOffset_of :: "(string \<times> file_state) list \<Rightarrow> string \<Rightarrow> nat" where
  "lastOffset_of fl sid = (case map_of fl sid of None \<Rightarrow> 0 | Some s \<Rightarrow> fs_offset s)"

text \<open>
  The loop of \<open>main\<close> over the session files. Its state is
  \<open>(state.files, allNewTexts, allNewMeta)\<close>.
\<close>

fun sessions_loop :: "(string \<Rightarrow> entry option) \<Rightarrow> int \<Rightarrow> session_file list
    \<Rightarrow> (string \<times> file_state) list \<times> string list \<times> chunk_meta list
    \<Rightarrow> (string \<times> file_state) list \<times> string list \<times> chunk_meta list" where
  "sessions_loop JSON_parse now [] st = st"
| "sessions_loop JSON_parse now (sf # sfs) (fl, allNewTexts, allNewMeta) =
     (if sf_mtime sf \<le> lastMtime_of fl (sf_sessionId sf)
      then sessions_loop JSON_parse now sfs (fl, allNewTexts, allNewMeta)
      else
        let messages = parseJSONL JSON_parse (sf_text sf);
            newMessages = map snd (select_from (lastOffset_of fl (sf_sessionId sf)) messages);
            fl1 = obj_set (sf_sessionId sf)
                    \<lparr> fs_mtime = sf_mtime sf, fs_offset = length messages \<rparr> fl in
        if length newMessages = 0
        then sessions_loop JSON_parse now sfs (fl1, allNewTexts, allNewMeta)
        else
          let texts = chunk_texts (sf_label sf) newMessages;
              metas = map (\<lambda>t. \<lparr> meta_source = ''session:'' @ sf_sessionId sf,
                                   meta_label = sf_label sf, meta_sessionId = sf_sessionId sf,
                                   meta_timestamp = now \<rparr>) texts
          in sessions_loop JSON_parse now sfs (fl1, allNewTexts @ texts, allNewMeta @ metas))"

definition session_docs :: "(int \<Rightarrow> string) \<Rightarrow> int \<Rightarrow> string list \<Rightarrow> chunk_meta list
    \<Rightarrow> real list list \<Rightarrow> doc list" where
  "session_docs toISOString now allNewTexts allNewMeta embeddings =
     map (\<lambda>(i, t, m).
        \<lparr> doc_id = ''session:'' @ meta_sessionId m @ '':'' @ show_int (meta_timestamp m)
                     @ '':'' @ show_nat i,
          doc_file = meta_source m, doc_startLine = 0, doc_endLine = 0,
          doc_heading = ''Chat: '' @ meta_label m @ '' ('' @ take 16 (toISOString (meta_timestamp m))
                     @ '')'',
          doc_text = t, doc_vector = nth_opt embeddings i, doc_indexedAt = now,
          doc_meta = Some m \<rparr>)
       (enumerate 0 (zip allNewTexts allNewMeta))"

datatype sessions_report =
    Skipped_too_soon
  | No_active_sessions
  | No_new_messages nat
  | Sessions_ingested nat nat nat

text \<open>
  \<open>main\<close> of ingest-sessions.js. \<open>JSON_parse\<close> decodes a log line and \<open>toISOString\<close> is
  \<open>new Date(t).toISOString()\<close>; \<open>now\<close> is \<open>Date.now()\<close>, read once for the run.
\<close>

definition sessions_main :: "(string \<Rightarrow> entry option) \<Rightarrow> (int \<Rightarrow> string) \<Rightarrow> provider \<Rightarrow> int
    \<Rightarrow> (string \<times> index_entry) list json_file \<Rightarrow> disk \<Rightarrow> sessions_report run" where
  "sessions_main JSON_parse toISOString create now sessions_index d =
     (let st = loadState (state_file d) in
      if (case lastRun st of None \<Rightarrow> False | Some l \<Rightarrow> now - l < 50000)
      then \<lparr> outcome = Inr Skipped_too_soon, disk_after = d, submitted = [], written = [] \<rparr>
      else
        (case getActiveSessionFiles now sessions_index of
           Inl e \<Rightarrow> \<lparr> outcome = Inl e, disk_after = d, submitted = [], written = [] \<rparr>
         | Inr sessionFiles \<Rightarrow>
             if length sessionFiles = 0
             then \<lparr> outcome = Inr No_active_sessions,
                    disk_after = d\<lparr> state_file := saveState st now \<rparr>,
                    submitted = [], written = [STATE_FILE] \<rparr>
             else
               (case sessions_loop JSON_parse now sessionFiles (files st, [], []) of
                  (fl, allNewTexts, allNewMeta) \<Rightarrow>
                    let st1 = st\<lparr> files := fl \<rparr> in
                    if length allNewTexts = 0
                    then \<lparr> outcome = Inr (No_new_messages (length sessionFiles)),
                           disk_after = d\<lparr> state_file := saveState st1 now \<rparr>,
                           submitted = [], written = [STATE_FILE] \<rparr>
                    else
                      (case getEmbeddings create (map (take 8000) allNewTexts) of
                         (Inl e, sent) \<Rightarrow>
                           \<lparr> outcome = Inl e, disk_after = d, submitted = sent, written = [] \<rparr>
                       | (Inr embeddings, sent) \<Rightarrow>
                           (case loadIndex (index_file d) of
                              Inl e \<Rightarrow>
                                \<lparr> outcome = Inl e, disk_after = d, submitted = sent,
                                  written = [] \<rparr>
                            | Inr docs \<Rightarrow>
                                let newDocs = session_docs toISOString now allNewTexts
                                                allNewMeta embeddings in
                                \<lparr> outcome = Inr (Sessions_ingested (length newDocs)
                                                    (length docs + length newDocs)
                                                    (length sessionFiles)),
                                  disk_after = d\<lparr> index_file := saveIndex (docs @ newDocs),
                                                   state_file := saveState st1 now \<rparr>,
                                  submitted = sent, written = [INDEX_FILE, STATE_FILE] \<rparr>)))))"

section \<open>Properties of the outputs, and example data\<close>

text \<open>A string without a paragraph break (two line feeds in a row).\<close>

fun no_break :: "string \<Rightarrow> bool" where
  "no_break (a # b # cs) = (\<not> (a = LF \<and> b = LF) \<and> no_break (b # cs))"
| "no_break _ = True"

text \<open>
  The size bound of a buffer of \<open>flush\<close>: at most 3002 characters, or one paragraph behind
  at most 102 characters.
\<close>

definition bounded :: "string \<Rightarrow> bool" where
  "bounded buf =
     (length buf \<le> 3002 \<or> (\<exists>lead p. length lead \<le> 102 \<and> no_break p \<and> buf = lead @ p))"

definition chunk_ok :: "string \<Rightarrow> chunk \<Rightarrow> bool" where
  "chunk_ok filePath c =
     (chunk_file c = filePath \<and>
      (length (chunk_text c) \<le> 3002 \<or>
       (\<exists>lead p. length lead \<le> 102 \<and> no_break p \<and> chunk_text c = trim (lead @ p))))"

text \<open>
  The sections of a document: the values of \<open>current\<close> that \<open>chunkMarkdown\<close> passes to
  \<open>flush\<close>, in order. Their lines are the lines of the document.
\<close>

fun section_loop :: "string list \<Rightarrow> nat \<Rightarrow> current \<Rightarrow> current list" where
  "section_loop [] i cur = [cur]"
| "section_loop (line # rest) i cur =
     (if is_heading line \<and> length (cur_lines cur) > 0
      then cur # section_loop rest (i + 1)
             \<lparr> cur_lines = [line], cur_startLine = i + 1, cur_heading = strip_heading line \<rparr>
      else section_loop rest (i + 1) (cur\<lparr> cur_lines := cur_lines cur @ [line] \<rparr>))"

definition sections :: "string \<Rightarrow> current list" where
  "sections text =
     section_loop (split_lines text) 0 \<lparr> cur_lines = [], cur_startLine = 1, cur_heading = [] \<rparr>"

text \<open>
  The buffer that the loop of \<open>flush\<close> builds from a group of paragraphs:
  \<open>buf += (buf ? '\n\n' : '') + para\<close> for each of them.
\<close>

definition join_paras :: "string list \<Rightarrow> string" where
  "join_paras g = foldl (\<lambda>buf para. buf @ (if buf \<noteq> [] then [LF, LF] else []) @ para) [] g"

text \<open>
  A chunk text made of whole paragraphs of a section: the whole content of a section of at
  most 3000 characters, or the paragraphs of a run \<open>g\<close> of consecutive paragraphs of a longer
  section, joined and trimmed, where the run has at most 3002 characters when joined, or its
  paragraphs before the last have at most 100.
\<close>

definition whole_paragraphs :: "current \<Rightarrow> string \<Rightarrow> bool" where
  "whole_paragraphs cur t =
     (let content = trim (join [LF] (cur_lines cur)) in
      (length content \<le> maxChars \<and> t = content)
      \<or> (maxChars < length content \<and>
          (\<exists>pre g post. split_paragraphs content = pre @ g @ post \<and> g \<noteq> []
             \<and> t = trim (join_paras g)
             \<and> (length (join_paras g) \<le> 3002 \<or> length (join_paras (butlast g)) \<le> 100))))"

text \<open>The chunks of a store file (none when the file is missing or does not parse).\<close>

definition docs_of :: "disk \<Rightarrow> doc list" where
  "docs_of d = (case index_file d of Parsed ds \<Rightarrow> ds | _ \<Rightarrow> [])"

text \<open>The tracker entries of a disk.\<close>

definition meta_of :: "disk \<Rightarrow> file_meta" where
  "meta_of d = (case meta_file d of Parsed m \<Rightarrow> m | _ \<Rightarrow> [])"



text \<open>The results of a search run (none when it printed no results).\<close>

definition results_of :: "search_output run \<Rightarrow> scored list" where
  "results_of r = (case outcome r of Inr (Results q rs n) \<Rightarrow> rs | _ \<Rightarrow> [])"

text \<open>
  Two paragraphs of 1500 characters, and a paragraph of 90 characters with one of 2950.
\<close>

definition para_a :: string where
  "para_a = replicate 1500 (CHR ''a'')"

definition para_b :: string where
  "para_b = replicate 1500 (CHR ''b'')"

definition para_s :: string where
  "para_s = replicate 90 (CHR ''s'')"

definition para_l :: string where
  "para_l = replicate 2950 (CHR ''l'')"

text \<open>A stored chunk of file \<open>f\<close> with vector \<open>v\<close>.\<close>

definition ex_doc :: "string \<Rightarrow> real list \<Rightarrow> doc" where
  "ex_doc f v =
     \<lparr> doc_id = f @ '':1'', doc_file = f, doc_startLine = 1, doc_endLine = 2,
       doc_heading = ''Notes'', doc_text = ''Some notes about the project.'',
       doc_vector = Some v, doc_indexedAt = 1700000000000, doc_meta = None \<rparr>"


text \<open>A provider that embeds every text as \<open>[3, 4]\<close>, and one whose calls fail.\<close>

definition ex_provider :: provider where
  "ex_provider batch = Some (map (\<lambda>t. [3, 4]) batch)"

definition failing_provider :: provider where
  "failing_provider batch = None"

text \<open>
  A decoder for example logs: a line \<open>U:text\<close> is a flat user message, a line \<open>A:text\<close> is
  an enveloped assistant message, any other line does not parse.
\<close>

definition ex_parse :: "string \<Rightarrow> entry option" where
  "ex_parse line =
     (if take 2 line = ''U:''
      then Some \<lparr> entry_type = [], entry_message = None, entry_role = ''user'',
                  entry_content = Text (drop 2 line) \<rparr>
      else if take 2 line = ''A:''
      then Some \<lparr> entry_type = ''message'',
                  entry_message = Some \<lparr> role = ''assistant'', msg_content = Text (drop 2 line) \<rparr>,
                  entry_role = [], entry_content = No_content \<rparr>
      else None)"

definition ex_iso :: "int \<Rightarrow> string" where
  "ex_iso t = ''2023-11-14T22:13:20.000Z''"

text \<open>
  A note, a crawled file holding it, and a session log of two lines with the messages they
  decode to; \<open>ex_sessions m t\<close> is a sessions index with one session \<open>s1\<close> whose log has
  modification time \<open>m\<close> and text \<open>t\<close>.
\<close>

definition ex_notes :: string where
  "ex_notes = ''# Intro'' @ [LF] @ ''Hello world, this is a test note.''"

definition ex_file :: "string \<Rightarrow> real \<Rightarrow> crawled" where
  "ex_file p m = \<lparr> relPath = p, mtime = m, content = ex_notes \<rparr>"







text \<open>A file too short to give a chunk, and a query of 8001 characters.\<close>

definition ex_short_file :: crawled where
  "ex_short_file = \<lparr> relPath = ''todo.md'', mtime = 5, content = ''hi'' \<rparr>"

definition long_query :: string where
  "long_query = replicate 8001 (CHR ''q'')"

text \<open>
  An empty data directory, and one where \<open>a.md\<close> and \<open>b.md\<close> are indexed and tracked with
  modification time 5.
\<close>

definition empty_disk :: disk where
  "empty_disk = \<lparr> index_file = Missing, meta_file = Missing, state_file = Missing \<rparr>"

definition ex_disk :: disk where
  "ex_disk =
     \<lparr> index_file = Parsed [ex_doc ''a.md'' [4, 3], ex_doc ''b.md'' [3, 4]],
       meta_file = Parsed [(''a.md'', 5), (''b.md'', 5)], state_file = Missing \<rparr>"


section \<open>Numbers and sorting\<close>

lemma js_mul_NaN_right: "js_mul x NaN = NaN"
  by (cases x) auto

lemma js_div_NaN_right: "js_div x NaN = NaN"
  by (cases x) auto

lemma js_add_NaN_right: "js_add x NaN = NaN"
  by (cases x) auto














lemma rank_subset: "set (rank scoredl limit m) \<subseteq> {r. js_ge (score r) m}"
  by (auto simp: rank_def slice0_def dest!: in_set_takeD)

section \<open>Cosine similarity\<close>

lemma cosine_loop_zero_left:
  "\<forall>x\<in>set a. x = 0 \<Longrightarrow> dot = Num 0 \<or> dot = NaN \<Longrightarrow>
   \<exists>d' nb'. cosine_loop a b (dot, Num 0, nb) = (d', Num 0, nb') \<and> (d' = Num 0 \<or> d' = NaN)"
proof (induction a b "(dot, Num 0, nb)" arbitrary: dot nb rule: cosine_loop.induct)
  case (1 b)
  then show ?case by simp
next
  case (2 x a)
  then show ?case by (simp add: js_add_NaN_right)
next
  case (3 x a y b)
  then show ?case by auto
qed

lemma cosine_loop_zero_right:
  "\<forall>y\<in>set b. y = 0 \<Longrightarrow> dot = Num 0 \<or> dot = NaN \<Longrightarrow> nb = Num 0 \<or> nb = NaN \<Longrightarrow>
   \<exists>d' na' nb'. cosine_loop a b (dot, na, nb) = (d', na', nb') \<and> (d' = Num 0 \<or> d' = NaN)
      \<and> (nb' = Num 0 \<or> nb' = NaN)"
proof (induction a b "(dot, na, nb)" arbitrary: dot na nb rule: cosine_loop.induct)
  case (1 b)
  then show ?case by simp
next
  case (2 x a)
  then show ?case by (simp add: js_add_NaN_right)
next
  case (3 x a y b)
  then show ?case by auto
qed

lemma cosine_zero_left: "\<forall>x\<in>set a. x = 0 \<Longrightarrow> cosine a b = NaN"
proof -
  assume z: "\<forall>x\<in>set a. x = 0"
  obtain d' nb' where l: "cosine_loop a b (Num 0, Num 0, Num 0) = (d', Num 0, nb')"
    and d: "d' = Num 0 \<or> d' = NaN"
    using cosine_loop_zero_left [OF z, where dot = "Num 0" and nb = "Num 0" and b = b] by auto
  have "js_mul (Num 0) (Math_sqrt nb') = Num 0 \<or> js_mul (Num 0) (Math_sqrt nb') = NaN"
    by (cases nb') auto
  with d show ?thesis
    by (auto simp: cosine_def l)
qed

lemma cosine_zero_right: "\<forall>y\<in>set b. y = 0 \<Longrightarrow> cosine a b = NaN"
proof -
  assume z: "\<forall>y\<in>set b. y = 0"
  obtain d' na' nb' where l: "cosine_loop a b (Num 0, Num 0, Num 0) = (d', na', nb')"
    and d: "d' = Num 0 \<or> d' = NaN" and n: "nb' = Num 0 \<or> nb' = NaN"
    using cosine_loop_zero_right [OF z, where dot = "Num 0" and nb = "Num 0" and na = "Num 0" and a = a]
    by auto
  have "js_mul (Math_sqrt na') (Math_sqrt nb') = Num 0 \<or> js_mul (Math_sqrt na') (Math_sqrt nb') = NaN"
    using n by (cases na') (auto simp: js_mul_NaN_right)
  with d show ?thesis
    by (auto simp: cosine_def l)
qed

lemma cosine_34_43: "cosine [3, 4] [4, 3] = Num (24 / 25)"
  by (simp add: cosine_def)

lemma cosine_34_00: "cosine [3, 4] [0, 0] = NaN"
  by (simp add: cosine_def)

lemma cosine_34_34: "cosine [3, 4] [3, 4] = Num 1"
  by (simp add: cosine_def)

lemma ex_embedding: "getEmbedding ex_provider t = (Inr (Some [3, 4]), [[t]])"
  by (simp add: getEmbedding_def getEmbeddings_def BATCH_SIZE_def ex_provider_def nth_opt_def
      slices.simps)

lemmas ex_search_simps = search_main_def loadIndex_def results_of_def ex_embedding
  score_doc_def cosineSimilarity_def ex_doc_def cosine_34_43 cosine_34_00 cosine_34_34
  rank_def Array_sort_def by_score_desc_def js_sub_def slice0_def

text \<open>
  C10. Cosine similarity has no zero guard: when the query vector or the stored vector is
  all zeros the score is \<open>NaN\<close>. Search never returns an entry with a \<open>NaN\<close> score, because
  the filter \<open>score >= minScore\<close> is false for \<open>NaN\<close>.
\<close>

theorem zero_vector_score_NaN_never_returned:
  "((\<forall>x\<in>set a. x = 0) \<or> (\<forall>y\<in>set b. y = 0) \<longrightarrow> cosineSimilarity a (Some b) = Inr NaN)
   \<and> (\<forall>r\<in>set (results_of (search_main create query limit minScore d)). score r \<noteq> NaN)"
proof -
  have "\<forall>r\<in>set (rank scoredl limit minScore). score r \<noteq> NaN" for scoredl
    using rank_subset [of scoredl limit minScore] by auto
  then show ?thesis
    by (auto simp: cosine_zero_left cosine_zero_right cosineSimilarity_def search_main_def
        results_of_def split: if_splits sum.splits prod.splits option.splits)
qed

theorem zero_vector_score_NaN_never_returned_witness:
  "cosineSimilarity [0, 0] (Some [1, 2]) = Inr NaN
   \<and> cosineSimilarity [3, 4] (Some [0, 0]) = Inr NaN
   \<and> map res_file (results_of (search_main ex_provider ''project'' 10 (Num (3 / 10))
        (empty_disk\<lparr> index_file := Parsed [ex_doc ''b.md'' [0, 0], ex_doc ''c.md'' [3, 4]] \<rparr>)))
       = [''c.md'']
   \<and> NaN \<notin> score ` set (results_of (search_main ex_provider ''project'' 10 (Num (3 / 10))
        (empty_disk\<lparr> index_file := Parsed [ex_doc ''b.md'' [0, 0], ex_doc ''c.md'' [3, 4]] \<rparr>)))"
proof -
  have "map res_file (results_of (search_main ex_provider ''project'' 10 (Num (3 / 10))
        (empty_disk\<lparr> index_file := Parsed [ex_doc ''b.md'' [0, 0], ex_doc ''c.md'' [3, 4]] \<rparr>)))
       = [''c.md'']"
    by (simp add: ex_search_simps empty_disk_def)
  then show ?thesis
    using zero_vector_score_NaN_never_returned [of "[0, 0]" "[1, 2]" ex_provider "''project''" 10
        "Num (3 / 10)" "empty_disk\<lparr> index_file := Parsed [ex_doc ''b.md'' [0, 0], ex_doc ''c.md'' [3, 4]] \<rparr>"]
      zero_vector_score_NaN_never_returned [of "[3, 4]" "[0, 0]" ex_provider "''project''" 10
        "Num (3 / 10)" "empty_disk"]
    by auto
qed




section \<open>The chunker\<close>

lemma length_trim_le: "length (trim s) \<le> length s"
proof -
  have "length (dropWhile is_space (rev (dropWhile is_space s))) \<le> length (rev (dropWhile is_space s))"
    by (rule length_dropWhile_le)
  also have "\<dots> \<le> length s" by (simp add: length_dropWhile_le)
  finally show ?thesis by (simp add: trim_def)
qed

lemma trim_id: "s \<noteq> [] \<Longrightarrow> \<not> is_space (hd s) \<Longrightarrow> \<not> is_space (last s) \<Longrightarrow> trim s = s"
proof -
  assume a: "s \<noteq> []" "\<not> is_space (hd s)" "\<not> is_space (last s)"
  then have 1: "dropWhile is_space s = s" by (cases s) auto
  from a have "rev s \<noteq> []" "\<not> is_space (hd (rev s))" by (auto simp: hd_rev)
  then have "dropWhile is_space (rev s) = rev s" by (cases "rev s") auto
  with 1 show ?thesis by (simp add: trim_def)
qed


lemma split_lines_no_LF: "LF \<notin> set xs \<Longrightarrow> split_lines xs = [xs]"
  by (induction xs) auto

lemma split_lines_append: "LF \<notin> set xs \<Longrightarrow> split_lines (xs @ LF # ys) = xs # split_lines ys"
  by (induction xs) auto

lemma split_paragraphs_nonempty: "split_paragraphs s \<noteq> []"
  by (induction s rule: split_paragraphs.induct) (auto split: list.splits)

lemma split_paragraphs_no_LF: "LF \<notin> set xs \<Longrightarrow> split_paragraphs xs = [xs]"
  by (induction xs) auto

lemma split_paragraphs_break:
  "LF \<notin> set xs \<Longrightarrow>
   split_paragraphs (xs @ LF # LF # ys) = xs # split_paragraphs (dropWhile (\<lambda>d. d = LF) ys)"
  by (induction xs) auto

lemma hd_split_paragraphs:
  "s \<noteq> [] \<Longrightarrow> hd s \<noteq> LF \<Longrightarrow>
   hd (split_paragraphs s) \<noteq> [] \<and> hd (hd (split_paragraphs s)) = hd s"
  by (cases s) (auto split: list.splits)

lemma no_break_Cons: "no_break p \<Longrightarrow> \<not> (c = LF \<and> p \<noteq> [] \<and> hd p = LF) \<Longrightarrow> no_break (c # p)"
  by (cases p) auto

lemma no_break_split_paragraphs: "\<forall>p\<in>set (split_paragraphs s). no_break p"
proof (induction s rule: split_paragraphs.induct)
  case 1
  then show ?case by simp
next
  case (2 c cs)
  show ?case
  proof (cases "c = LF \<and> cs \<noteq> [] \<and> hd cs = LF")
    case True
    with 2 show ?thesis by simp
  next
    case False
    obtain p ps where sp: "split_paragraphs cs = p # ps"
      using split_paragraphs_nonempty [of cs] by (cases "split_paragraphs cs") auto
    have ih: "\<forall>q\<in>set (p # ps). no_break q"
      using 2(2) False sp by auto
    have "no_break (c # p)"
    proof (rule no_break_Cons)
      show "no_break p" using ih by simp
      show "\<not> (c = LF \<and> p \<noteq> [] \<and> hd p = LF)"
      proof
        assume a: "c = LF \<and> p \<noteq> [] \<and> hd p = LF"
        then have ne: "cs \<noteq> []" using sp by (cases cs) auto
        moreover have "hd cs = LF"
        proof (rule ccontr)
          assume "hd cs \<noteq> LF"
          with ne hd_split_paragraphs [of cs] sp a show False
            by (cases cs) (auto split: if_splits list.splits)
        qed
        ultimately show False using False a by simp
      qed
    qed
    with ih False sp show ?thesis by auto
  qed
qed

lemma bounded_chunk:
  "bounded buf \<Longrightarrow> chunk_text c = trim buf \<Longrightarrow> chunk_file c = fp \<Longrightarrow> chunk_ok fp c"
  unfolding bounded_def chunk_ok_def using length_trim_le [of buf] by auto

lemma bounded_Nil: "bounded []"
  by (simp add: bounded_def)

lemma bounded_step:
  assumes "bounded buf" "no_break para"
  shows "bounded ((if length buf + length para > maxChars \<and> length buf > 100 then [] else buf)
           @ (if (if length buf + length para > maxChars \<and> length buf > 100 then [] else buf) \<noteq> []
              then [LF, LF] else []) @ para)"
proof (cases "length buf + length para > maxChars \<and> length buf > 100")
  case True
  have "bounded para"
    unfolding bounded_def using assms(2) by (metis append_Nil list.size(3) zero_le)
  with True show ?thesis by simp
next
  case False
  then have e: "(if length buf + length para > maxChars \<and> length buf > 100 then [] else buf) = buf"
    by presburger
  show ?thesis
    unfolding e
  proof (cases "length buf \<le> 100")
    case True
    have "length (buf @ (if buf \<noteq> [] then [LF, LF] else [])) \<le> 102"
      using True by simp
    then have "\<exists>lead p. length lead \<le> 102 \<and> no_break p \<and>
        buf @ (if buf \<noteq> [] then [LF, LF] else []) @ para = lead @ p"
      using assms(2) by (metis append.assoc)
    then show "bounded (buf @ (if buf \<noteq> [] then [LF, LF] else []) @ para)"
      unfolding bounded_def by blast
  next
    case F2: False
    with False have "length buf + length para \<le> 3000" by (simp add: maxChars_def)
    then show "bounded (buf @ (if buf \<noteq> [] then [LF, LF] else []) @ para)"
      by (simp add: bounded_def)
  qed
qed

lemma pack_ok:
  "\<forall>c\<in>set chunks. chunk_ok fp c \<Longrightarrow> bounded buf \<Longrightarrow> \<forall>p\<in>set paras. no_break p \<Longrightarrow>
   pack fp cur paras (chunks, buf, bufStart, lineOffset) = (chunks', buf', bs', lo') \<Longrightarrow>
   (\<forall>c\<in>set chunks'. chunk_ok fp c) \<and> bounded buf'"
proof (induction paras arbitrary: chunks buf bufStart lineOffset)
  case Nil
  then show ?case by simp
next
  case (Cons para paras)
  let ?g = "length buf + length para > maxChars \<and> length buf > 100"
  let ?chunks1 = "if ?g then chunks @ [\<lparr> chunk_text = trim buf, chunk_file = fp,
                               chunk_startLine = bufStart,
                               chunk_endLine = bufStart + length (split_lines buf) - 1,
                               chunk_heading = cur_heading cur \<rparr>] else chunks"
  let ?buf1 = "if ?g then [] else buf"
  let ?bs1 = "if ?g then cur_startLine cur + lineOffset else bufStart"
  let ?buf2 = "?buf1 @ (if ?buf1 \<noteq> [] then [LF, LF] else []) @ para"
  have step: "pack fp cur (para # paras) (chunks, buf, bufStart, lineOffset) =
     pack fp cur paras (?chunks1, ?buf2, ?bs1, lineOffset + (length (split_lines para) + 1))"
    by (simp add: Let_def)
  have c1: "\<forall>c\<in>set ?chunks1. chunk_ok fp c"
    using Cons.prems(1,2) by (auto intro: bounded_chunk)
  have b2: "bounded ?buf2"
    using bounded_step [OF Cons.prems(2), of para] Cons.prems(3) by simp
  show ?case
    using Cons.IH [OF c1 b2] Cons.prems(3,4) unfolding step by simp
qed

lemma flush_ok:
  assumes "\<forall>c\<in>set chunks. chunk_ok fp c"
  shows "\<forall>c\<in>set (flush fp cur chunks). chunk_ok fp c"
proof -
  let ?content = "trim (join [LF] (cur_lines cur))"
  show ?thesis
  proof (cases "length ?content < 20")
    case True
    then show ?thesis using assms by (simp add: flush_def)
  next
    case False
    show ?thesis
    proof (cases "length ?content > maxChars")
      case True
      obtain chunks1 buf bs lo where p: "pack fp cur (split_paragraphs ?content)
          (chunks, [], cur_startLine cur, 0) = (chunks1, buf, bs, lo)"
        by (metis prod_cases4)
      have "(\<forall>c\<in>set chunks1. chunk_ok fp c) \<and> bounded buf"
        using pack_ok [OF assms bounded_Nil _ p] no_break_split_paragraphs by blast
      then show ?thesis
        using False True p by (auto simp: flush_def intro: bounded_chunk)
    next
      case F2: False
      then show ?thesis
        using False assms by (auto simp: flush_def chunk_ok_def maxChars_def)
    qed
  qed
qed

lemma chunk_lines_ok:
  "\<forall>c\<in>set chunks. chunk_ok fp c \<Longrightarrow> chunk_lines fp ls i cur chunks = (cur', chunks') \<Longrightarrow>
   \<forall>c\<in>set chunks'. chunk_ok fp c"
proof (induction ls arbitrary: i cur chunks)
  case Nil
  then show ?case by simp
next
  case (Cons line rest)
  show ?case
  proof (cases "is_heading line \<and> length (cur_lines cur) > 0")
    case True
    then show ?thesis
      using Cons.IH [OF flush_ok [OF Cons.prems(1)]] Cons.prems(2) by simp
  next
    case False
    then show ?thesis
      using Cons.IH [OF Cons.prems(1)] Cons.prems(2) by auto
  qed
qed

lemma chunkMarkdown_ok: "\<forall>c\<in>set (chunkMarkdown text fp). chunk_ok fp c"
proof -
  obtain cur chunks where l: "chunk_lines fp (split_lines text) 0
             \<lparr> cur_lines = [], cur_startLine = 1, cur_heading = [] \<rparr> [] = (cur, chunks)"
    by (metis prod.exhaust)
  have "\<forall>c\<in>set chunks. chunk_ok fp c"
    using chunk_lines_ok [OF _ l] by simp
  then show ?thesis
    unfolding chunkMarkdown_def l by (simp add: flush_ok)
qed

lemma chunkMarkdown_file: "c \<in> set (chunkMarkdown text fp) \<Longrightarrow> chunk_file c = fp"
  using chunkMarkdown_ok [of "text" fp] by (simp add: chunk_ok_def)

subsection \<open>Two paragraphs packed into one chunk\<close>

lemma pack_two:
  assumes "LF \<notin> set p" "LF \<notin> set q" "length p + length q \<le> maxChars \<or> length p \<le> 100"
  shows "pack fp cur [p, q] (chunks, [], s, 0)
    = (chunks, (if p = [] then q else p @ LF # LF # q), s, 4)"
  using assms by (auto simp: split_lines_no_LF)

lemma two_paragraphs_one_chunk:
  assumes p: "LF \<notin> set p" "p \<noteq> []" "\<not> is_space (hd p)" "hd p \<noteq> CHR ''#''"
    and q: "LF \<notin> set q" "q \<noteq> []" "\<not> is_space (last q)" "hd q \<noteq> CHR ''#''"
    and big: "3000 < length p + length q + 2"
    and fits: "length p + length q \<le> 3000 \<or> length p \<le> 100"
  shows "chunkMarkdown (p @ LF # LF # q) fp =
     [\<lparr> chunk_text = p @ LF # LF # q, chunk_file = fp, chunk_startLine = 1,
        chunk_endLine = 3, chunk_heading = [] \<rparr>]"
proof -
  have lines: "split_lines (p @ LF # LF # q) = [p, [], q]"
    using split_lines_append [OF p(1), of "LF # q"] split_lines_no_LF [OF q(1)] by simp
  have hp: "\<not> is_heading p" "\<not> is_heading []" "\<not> is_heading q"
    using p(2,4) q(2,4) by (cases p; cases q; simp add: is_heading_def)+
  have loop: "chunk_lines fp [p, [], q] 0 \<lparr> cur_lines = [], cur_startLine = 1, cur_heading = [] \<rparr> []
      = (\<lparr> cur_lines = [p, [], q], cur_startLine = 1, cur_heading = [] \<rparr>, [])"
    by (simp add: hp)
  have tr: "trim (p @ LF # LF # q) = p @ LF # LF # q"
    using p(2,3) q(2,3) by (intro trim_id) (auto simp: hd_append)
  have "dropWhile (\<lambda>d. d = LF) q = q"
    using q(1,2) by (cases q) auto
  then have paras: "split_paragraphs (p @ LF # LF # q) = [p, q]"
    using split_paragraphs_break [OF p(1), of q] split_paragraphs_no_LF [OF q(1)] by simp
  have pk: "pack fp cur [p, q] (chunks, [], s, 0) = (chunks, p @ LF # LF # q, s, 4)"
    for cur chunks s
    using pack_two [OF p(1) q(1), of fp cur chunks s] fits p(2) by (simp add: maxChars_def)
  have fl: "flush fp \<lparr> cur_lines = [p, [], q], cur_startLine = 1, cur_heading = [] \<rparr> [] =
     [\<lparr> chunk_text = p @ LF # LF # q, chunk_file = fp, chunk_startLine = 1,
        chunk_endLine = 3, chunk_heading = [] \<rparr>]"
    using big by (simp add: flush_def tr paras pk maxChars_def del: pack.simps)
  show ?thesis
    by (simp only: chunkMarkdown_def lines loop prod.case fl)
qed

lemma para_facts:
  "length para_a = 1500" "length para_b = 1500" "length para_s = 90" "length para_l = 2950"
  "LF \<notin> set para_a" "LF \<notin> set para_b" "LF \<notin> set para_s" "LF \<notin> set para_l"
  by (simp_all add: para_a_def para_b_def para_s_def para_l_def LF_def)

lemma ex_chunkMarkdown:
  "chunkMarkdown (para_a @ LF # LF # para_b) fp =
     [\<lparr> chunk_text = para_a @ LF # LF # para_b, chunk_file = fp, chunk_startLine = 1,
        chunk_endLine = 3, chunk_heading = [] \<rparr>]"
  by (rule two_paragraphs_one_chunk)
    (simp_all add: para_a_def para_b_def LF_def is_space_def)

lemma ex_chunkMarkdown_short_lead:
  "chunkMarkdown (para_s @ LF # LF # para_l) fp =
     [\<lparr> chunk_text = para_s @ LF # LF # para_l, chunk_file = fp, chunk_startLine = 1,
        chunk_endLine = 3, chunk_heading = [] \<rparr>]"
  by (rule two_paragraphs_one_chunk)
    (simp_all add: para_s_def para_l_def LF_def is_space_def)

lemma ex_paras: "split_paragraphs (para_a @ LF # LF # para_b) = [para_a, para_b]"
proof -
  have "dropWhile (\<lambda>d. d = LF) para_b = para_b"
    by (simp add: dropWhile_eq_self_iff para_b_def LF_def)
  then show ?thesis
    using split_paragraphs_break [of para_a para_b] split_paragraphs_no_LF [of para_b]
    by (simp add: para_facts)
qed

lemma ex_paras_short_lead: "split_paragraphs (para_s @ LF # LF # para_l) = [para_s, para_l]"
proof -
  have "dropWhile (\<lambda>d. d = LF) para_l = para_l"
    by (simp add: dropWhile_eq_self_iff para_l_def LF_def)
  then show ?thesis
    using split_paragraphs_break [of para_s para_l] split_paragraphs_no_LF [of para_l]
    by (simp add: para_facts)
qed

subsection \<open>Chunks are made of whole paragraphs\<close>

lemma join_paras_Nil: "join_paras [] = []"
  by (simp add: join_paras_def)

lemma join_paras_snoc:
  "join_paras (g @ [p]) = join_paras g @ (if join_paras g \<noteq> [] then [LF, LF] else []) @ p"
  by (simp add: join_paras_def)

lemma join_paras_single: "join_paras [p] = p"
  by (simp add: join_paras_def)

lemma pack_groups:
  assumes "seen @ g @ paras = all"
    and "buf = join_paras g"
    and "g = [] \<or> length (join_paras g) \<le> 3002 \<or> length (join_paras (butlast g)) \<le> 100"
    and "pack fp cur paras (chunks, buf, bs, lo) = (chunks', buf', bs', lo')"
  shows "\<exists>new seen' g'. chunks' = chunks @ new
      \<and> (\<forall>c\<in>set new. \<exists>pre h post. all = pre @ h @ post \<and> h \<noteq> []
             \<and> chunk_text c = trim (join_paras h)
             \<and> (length (join_paras h) \<le> 3002 \<or> length (join_paras (butlast h)) \<le> 100))
      \<and> seen' @ g' = all \<and> buf' = join_paras g'
      \<and> (g' = [] \<or> length (join_paras g') \<le> 3002 \<or> length (join_paras (butlast g')) \<le> 100)"
  using assms
proof (induction paras arbitrary: seen g buf chunks bs lo)
  case Nil
  then show ?case by auto
next
  case (Cons para paras)
  show ?case
  proof (cases "length buf + length para > maxChars \<and> length buf > 100")
    case True
    let ?c = "\<lparr> chunk_text = trim buf, chunk_file = fp, chunk_startLine = bs,
                 chunk_endLine = bs + length (split_lines buf) - 1,
                 chunk_heading = cur_heading cur \<rparr>"
    have step: "pack fp cur paras (chunks @ [?c], para, cur_startLine cur + lo,
        lo + (length (split_lines para) + 1)) = (chunks', buf', bs', lo')"
      using Cons.prems(4) True by (simp add: Let_def)
    have gne: "g \<noteq> []"
      using True Cons.prems(2) by (auto simp: join_paras_Nil)
    have "\<exists>new seen' g'. chunks' = (chunks @ [?c]) @ new
      \<and> (\<forall>c\<in>set new. \<exists>pre h post. all = pre @ h @ post \<and> h \<noteq> []
             \<and> chunk_text c = trim (join_paras h)
             \<and> (length (join_paras h) \<le> 3002 \<or> length (join_paras (butlast h)) \<le> 100))
      \<and> seen' @ g' = all \<and> buf' = join_paras g'
      \<and> (g' = [] \<or> length (join_paras g') \<le> 3002 \<or> length (join_paras (butlast g')) \<le> 100)"
    proof (rule Cons.IH [OF _ _ _ step])
      show "(seen @ g) @ [para] @ paras = all" using Cons.prems(1) by simp
      show "para = join_paras [para]" by (simp add: join_paras_single)
      show "[para] = [] \<or> length (join_paras [para]) \<le> 3002
          \<or> length (join_paras (butlast [para])) \<le> 100"
        by (simp add: join_paras_Nil)
    qed
    then obtain new seen' g' where n: "chunks' = (chunks @ [?c]) @ new"
      "\<forall>c\<in>set new. \<exists>pre h post. all = pre @ h @ post \<and> h \<noteq> []
             \<and> chunk_text c = trim (join_paras h)
             \<and> (length (join_paras h) \<le> 3002 \<or> length (join_paras (butlast h)) \<le> 100)"
      "seen' @ g' = all" "buf' = join_paras g'"
      "g' = [] \<or> length (join_paras g') \<le> 3002 \<or> length (join_paras (butlast g')) \<le> 100"
      by blast
    have c: "\<exists>pre h post. all = pre @ h @ post \<and> h \<noteq> []
             \<and> chunk_text ?c = trim (join_paras h)
             \<and> (length (join_paras h) \<le> 3002 \<or> length (join_paras (butlast h)) \<le> 100)"
    proof (intro exI conjI)
      show "all = seen @ g @ (para # paras)" using Cons.prems(1) by simp
      show "g \<noteq> []" by (rule gne)
      show "chunk_text ?c = trim (join_paras g)" using Cons.prems(2) by simp
      show "length (join_paras g) \<le> 3002 \<or> length (join_paras (butlast g)) \<le> 100"
        using Cons.prems(3) gne by simp
    qed
    show ?thesis
    proof (intro exI conjI)
      show "chunks' = chunks @ (?c # new)" using n(1) by simp
      show "\<forall>c\<in>set (?c # new). \<exists>pre h post. all = pre @ h @ post \<and> h \<noteq> []
             \<and> chunk_text c = trim (join_paras h)
             \<and> (length (join_paras h) \<le> 3002 \<or> length (join_paras (butlast h)) \<le> 100)"
        using c n(2) by (simp del: select_convs)
      show "seen' @ g' = all" by (rule n(3))
      show "buf' = join_paras g'" by (rule n(4))
      show "g' = [] \<or> length (join_paras g') \<le> 3002 \<or> length (join_paras (butlast g')) \<le> 100"
        by (rule n(5))
    qed
  next
    case False
    have step: "pack fp cur paras (chunks, buf @ (if buf \<noteq> [] then [LF, LF] else []) @ para, bs,
        lo + (length (split_lines para) + 1)) = (chunks', buf', bs', lo')"
      using Cons.prems(4) False by (simp add: Let_def)
    show ?thesis
    proof (rule Cons.IH [OF _ _ _ step])
      show "seen @ (g @ [para]) @ paras = all" using Cons.prems(1) by simp
      show "buf @ (if buf \<noteq> [] then [LF, LF] else []) @ para = join_paras (g @ [para])"
        using Cons.prems(2) by (simp add: join_paras_snoc)
      have "length (join_paras (g @ [para])) \<le> 3002 \<or> length (join_paras g) \<le> 100"
        using False Cons.prems(2) by (auto simp: join_paras_snoc maxChars_def)
      then show "g @ [para] = [] \<or> length (join_paras (g @ [para])) \<le> 3002
          \<or> length (join_paras (butlast (g @ [para]))) \<le> 100"
        by simp
    qed
  qed
qed

lemma flush_whole:
  "\<exists>new. flush fp cur chunks = chunks @ new \<and> (\<forall>c\<in>set new. whole_paragraphs cur (chunk_text c))"
proof -
  let ?content = "trim (join [LF] (cur_lines cur))"
  show ?thesis
  proof (cases "length ?content < 20")
    case True
    then show ?thesis by (simp add: flush_def)
  next
    case False
    show ?thesis
    proof (cases "length ?content > maxChars")
      case True
      obtain chunks1 buf bs lo where p: "pack fp cur (split_paragraphs ?content)
          (chunks, [], cur_startLine cur, 0) = (chunks1, buf, bs, lo)"
        by (metis prod_cases4)
      have "\<exists>new seen' g'. chunks1 = chunks @ new
        \<and> (\<forall>c\<in>set new. \<exists>pre h post. split_paragraphs ?content = pre @ h @ post \<and> h \<noteq> []
             \<and> chunk_text c = trim (join_paras h)
             \<and> (length (join_paras h) \<le> 3002 \<or> length (join_paras (butlast h)) \<le> 100))
        \<and> seen' @ g' = split_paragraphs ?content \<and> buf = join_paras g'
        \<and> (g' = [] \<or> length (join_paras g') \<le> 3002 \<or> length (join_paras (butlast g')) \<le> 100)"
        by (rule pack_groups [OF _ _ _ p, of "[]" "[]"]) (simp_all add: join_paras_Nil)
      then obtain new seen' g' where n: "chunks1 = chunks @ new"
        "\<forall>c\<in>set new. \<exists>pre h post. split_paragraphs ?content = pre @ h @ post \<and> h \<noteq> []
             \<and> chunk_text c = trim (join_paras h)
             \<and> (length (join_paras h) \<le> 3002 \<or> length (join_paras (butlast h)) \<le> 100)"
        "seen' @ g' = split_paragraphs ?content" "buf = join_paras g'"
        "g' = [] \<or> length (join_paras g') \<le> 3002 \<or> length (join_paras (butlast g')) \<le> 100"
        by blast
      have w: "\<forall>c\<in>set new. whole_paragraphs cur (chunk_text c)"
        using n(2) True unfolding whole_paragraphs_def Let_def by blast
      show ?thesis
      proof (cases "length (trim buf) > 20")
        case T2: True
        let ?c = "\<lparr> chunk_text = trim buf, chunk_file = fp, chunk_startLine = bs,
                     chunk_endLine = cur_startLine cur + length (cur_lines cur) - 1,
                     chunk_heading = cur_heading cur \<rparr>"
        have gne: "g' \<noteq> []"
          using T2 n(4) by (auto simp: join_paras_Nil trim_def)
        have "\<exists>pre h post. split_paragraphs ?content = pre @ h @ post \<and> h \<noteq> []
             \<and> trim buf = trim (join_paras h)
             \<and> (length (join_paras h) \<le> 3002 \<or> length (join_paras (butlast h)) \<le> 100)"
        proof (intro exI conjI)
          show "split_paragraphs ?content = seen' @ g' @ []" using n(3) by simp
          show "g' \<noteq> []" by (rule gne)
          show "trim buf = trim (join_paras g')" using n(4) by simp
          show "length (join_paras g') \<le> 3002 \<or> length (join_paras (butlast g')) \<le> 100"
            using n(5) gne by simp
        qed
        then have "whole_paragraphs cur (trim buf)"
          using True unfolding whole_paragraphs_def Let_def by blast
        moreover have "flush fp cur chunks = chunks @ (new @ [?c])"
          using False True T2 p n(1) by (simp add: flush_def)
        ultimately show ?thesis using w by (intro exI [of _ "new @ [?c]"]) simp
      next
        case F2: False
        have "flush fp cur chunks = chunks @ new"
          using False True F2 p n(1) by (simp add: flush_def)
        then show ?thesis using w by blast
      qed
    next
      case F3: False
      let ?c = "\<lparr> chunk_text = ?content, chunk_file = fp, chunk_startLine = cur_startLine cur,
                   chunk_endLine = cur_startLine cur + length (cur_lines cur) - 1,
                   chunk_heading = cur_heading cur \<rparr>"
      have "flush fp cur chunks = chunks @ [?c]"
        using False F3 by (simp add: flush_def)
      moreover have "whole_paragraphs cur ?content"
        using F3 by (simp add: whole_paragraphs_def)
      ultimately show ?thesis by (intro exI [of _ "[?c]"]) simp
    qed
  qed
qed

lemma chunk_lines_sections:
  "chunk_lines fp ls i cur chunks = (cur', chunks') \<Longrightarrow>
   flush fp cur' chunks' = foldl (\<lambda>ch c. flush fp c ch) chunks (section_loop ls i cur)"
proof (induction ls arbitrary: i cur chunks)
  case Nil
  then show ?case by simp
next
  case (Cons line rest)
  show ?case
  proof (cases "is_heading line \<and> length (cur_lines cur) > 0")
    case True
    then show ?thesis using Cons.IH Cons.prems by simp
  next
    case False
    then show ?thesis using Cons.IH Cons.prems by auto
  qed
qed

lemma chunkMarkdown_sections:
  "chunkMarkdown text fp = foldl (\<lambda>ch c. flush fp c ch) [] (sections text)"
proof -
  obtain cur chunks where l: "chunk_lines fp (split_lines text) 0
             \<lparr> cur_lines = [], cur_startLine = 1, cur_heading = [] \<rparr> [] = (cur, chunks)"
    by (metis prod.exhaust)
  show ?thesis
    unfolding chunkMarkdown_def sections_def l using chunk_lines_sections [OF l] by simp
qed

lemma foldl_flush_whole:
  "\<forall>c\<in>set chunks. \<exists>cur\<in>S. whole_paragraphs cur (chunk_text c) \<Longrightarrow> set secs \<subseteq> S \<Longrightarrow>
   \<forall>c\<in>set (foldl (\<lambda>ch c. flush fp c ch) chunks secs). \<exists>cur\<in>S. whole_paragraphs cur (chunk_text c)"
proof (induction secs arbitrary: chunks)
  case Nil
  then show ?case by simp
next
  case (Cons s secs)
  obtain new where n: "flush fp s chunks = chunks @ new"
    "\<forall>c\<in>set new. whole_paragraphs s (chunk_text c)"
    using flush_whole [of fp s chunks] by blast
  have "\<forall>c\<in>set (flush fp s chunks). \<exists>cur\<in>S. whole_paragraphs cur (chunk_text c)"
    unfolding n(1) using Cons.prems n(2) by auto
  from Cons.IH [OF this] Cons.prems(2) show ?case by simp
qed

lemma chunkMarkdown_whole:
  "\<forall>c\<in>set (chunkMarkdown text fp). \<exists>cur\<in>set (sections text). whole_paragraphs cur (chunk_text c)"
  unfolding chunkMarkdown_sections by (rule foldl_flush_whole) simp_all

lemma section_loop_lines: "concat (map cur_lines (section_loop ls i cur)) = cur_lines cur @ ls"
  by (induction ls arbitrary: i cur) auto

lemma sections_lines: "concat (map cur_lines (sections text)) = split_lines text"
  by (simp add: sections_def section_loop_lines)

text \<open>
  C5, as stated, fails. A paragraph of 90 characters and one of 2950, neither above 3000,
  are packed into one chunk of 3042 characters: a buffer of at most 100 characters is never
  flushed before the next paragraph is added. And two paragraphs of 1500 characters give
  one chunk of 3002 characters: the test \<open>buf.length + para.length > maxChars\<close> does not
  count the separator.
\<close>

theorem chunk_over_3000_counterexample:
  "chunkMarkdown (para_s @ [LF, LF] @ para_l) ''f.md'' =
     [\<lparr> chunk_text = para_s @ [LF, LF] @ para_l, chunk_file = ''f.md'', chunk_startLine = 1,
        chunk_endLine = 3, chunk_heading = [] \<rparr>]
   \<and> length (para_s @ [LF, LF] @ para_l) = 3042
   \<and> split_paragraphs (para_s @ [LF, LF] @ para_l) = [para_s, para_l]
   \<and> length para_s = 90 \<and> length para_l = 2950
   \<and> chunkMarkdown (para_a @ [LF, LF] @ para_b) ''f.md'' =
     [\<lparr> chunk_text = para_a @ [LF, LF] @ para_b, chunk_file = ''f.md'', chunk_startLine = 1,
        chunk_endLine = 3, chunk_heading = [] \<rparr>]
   \<and> length (para_a @ [LF, LF] @ para_b) = 3002
   \<and> split_paragraphs (para_a @ [LF, LF] @ para_b) = [para_a, para_b]
   \<and> length para_a = 1500 \<and> length para_b = 1500"
  by (simp add: ex_chunkMarkdown ex_chunkMarkdown_short_lead ex_paras ex_paras_short_lead
      para_facts)

text \<open>
  C5, amended. Every chunk emitted by the chunker has at most 3002 characters of text, or
  is (up to the final trim) a single paragraph, a string without a blank line, behind at
  most 102 other characters: the earlier paragraphs of at most 100 characters and the
  separator. And every chunk is made of whole paragraphs of one section of the document:
  its text is the whole content of a section of at most 3000 characters, or the trimmed
  join of a run of consecutive paragraphs of a longer section, a run of at most 3002
  characters or one whose paragraphs before the last have at most 100. So no paragraph is
  cut; the sections are those the chunker flushes, in order, and their lines are the lines
  of the document.
\<close>

theorem chunk_size_bound:
  "(\<forall>c\<in>set (chunkMarkdown text filePath).
      length (chunk_text c) \<le> 3002
      \<or> (\<exists>lead p. length lead \<le> 102 \<and> no_break p \<and> chunk_text c = trim (lead @ p)))
   \<and> (\<forall>c\<in>set (chunkMarkdown text filePath).
        \<exists>cur\<in>set (sections text). whole_paragraphs cur (chunk_text c))
   \<and> concat (map cur_lines (sections text)) = split_lines text
   \<and> chunkMarkdown text filePath
       = foldl (\<lambda>chunks cur. flush filePath cur chunks) [] (sections text)"
proof (intro conjI)
  show "\<forall>c\<in>set (chunkMarkdown text filePath).
      length (chunk_text c) \<le> 3002
      \<or> (\<exists>lead p. length lead \<le> 102 \<and> no_break p \<and> chunk_text c = trim (lead @ p))"
    using chunkMarkdown_ok [of "text" filePath] by (simp add: chunk_ok_def)
  show "\<forall>c\<in>set (chunkMarkdown text filePath).
        \<exists>cur\<in>set (sections text). whole_paragraphs cur (chunk_text c)"
    by (rule chunkMarkdown_whole)
  show "concat (map cur_lines (sections text)) = split_lines text"
    by (rule sections_lines)
  show "chunkMarkdown text filePath
       = foldl (\<lambda>chunks cur. flush filePath cur chunks) [] (sections text)"
    by (rule chunkMarkdown_sections)
qed

theorem chunk_size_bound_witness:
  "chunkMarkdown (para_a @ LF # LF # para_b) ''f.md'' \<noteq> []
   \<and> (length (chunk_text (hd (chunkMarkdown (para_a @ LF # LF # para_b) ''f.md''))) \<le> 3002
      \<or> (\<exists>lead p. length lead \<le> 102 \<and> no_break p
            \<and> chunk_text (hd (chunkMarkdown (para_a @ LF # LF # para_b) ''f.md'')) = trim (lead @ p)))
   \<and> (\<exists>cur\<in>set (sections (para_a @ LF # LF # para_b)).
        whole_paragraphs cur (chunk_text (hd (chunkMarkdown (para_a @ LF # LF # para_b) ''f.md''))))"
proof -
  have ne: "chunkMarkdown (para_a @ LF # LF # para_b) ''f.md'' \<noteq> []"
    by (simp add: ex_chunkMarkdown)
  then have h: "hd (chunkMarkdown (para_a @ LF # LF # para_b) ''f.md'')
      \<in> set (chunkMarkdown (para_a @ LF # LF # para_b) ''f.md'')"
    by (rule hd_in_set)
  note th = chunk_size_bound [of "para_a @ LF # LF # para_b" "''f.md''"]
  from ne conjunct1 [OF th, THEN bspec, OF h] conjunct1 [OF conjunct2 [OF th], THEN bspec, OF h]
  show ?thesis by (intro conjI)
qed

section \<open>The embedding client\<close>

lemma concat_slices: "0 < n \<Longrightarrow> concat (slices n xs) = xs"
proof (induction n xs rule: slices.induct)
  case (1 n xs)
  show ?case
  proof (cases "xs = []")
    case True
    then show ?thesis by (simp add: slices.simps)
  next
    case False
    with 1 show ?thesis by (subst slices.simps) simp
  qed
qed

lemma embed_batches_Inl:
  "embed_batches create bs acc sent = (Inl e, sent') \<Longrightarrow> e = EmbeddingError"
  by (induction bs arbitrary: acc sent) (auto split: option.splits)

lemma embed_batches_Inr:
  "embed_batches create bs acc sent = (Inr vs, sent') \<Longrightarrow>
   sent' = sent @ bs \<and> (\<forall>b\<in>set bs. create b \<noteq> None)"
proof (induction bs arbitrary: acc sent)
  case Nil
  then show ?case by simp
next
  case (Cons a bs)
  then obtain x where x: "create a = Some x"
    by (cases "create a") auto
  with Cons.prems have "embed_batches create bs (acc @ x) (sent @ [a]) = (Inr vs, sent')"
    by simp
  from Cons.IH [OF this] x show ?case by simp
qed

lemma embed_batches_sent:
  "embed_batches create bs acc sent = (r, sent') \<Longrightarrow> set sent' \<subseteq> set sent \<union> set bs"
proof (induction bs arbitrary: acc sent)
  case Nil
  then show ?case by simp
next
  case (Cons a bs)
  show ?case
  proof (cases "create a")
    case None
    with Cons.prems show ?thesis by auto
  next
    case (Some x)
    with Cons.prems have "embed_batches create bs (acc @ x) (sent @ [a]) = (r, sent')"
      by simp
    from Cons.IH [OF this] show ?thesis by auto
  qed
qed

lemma getEmbeddings_Inl: "getEmbeddings create texts = (Inl e, sent) \<Longrightarrow> e = EmbeddingError"
  unfolding getEmbeddings_def by (rule embed_batches_Inl)

lemma getEmbeddings_Inr:
  "getEmbeddings create texts = (Inr vs, sent) \<Longrightarrow> sent = [] \<or> create (last sent) \<noteq> None"
proof -
  assume "getEmbeddings create texts = (Inr vs, sent)"
  then have "sent = [] @ slices BATCH_SIZE texts \<and> (\<forall>b\<in>set (slices BATCH_SIZE texts). create b \<noteq> None)"
    unfolding getEmbeddings_def by (rule embed_batches_Inr)
  then have "\<forall>b\<in>set sent. create b \<noteq> None" by simp
  then show ?thesis by (cases "sent = []") auto
qed

lemma getEmbeddings_sent:
  assumes "getEmbeddings create texts = (r, sent)" "b \<in> set sent" "t \<in> set b"
  shows "t \<in> set texts"
proof -
  have "b \<in> set (slices BATCH_SIZE texts)"
    using assms(1,2) embed_batches_sent unfolding getEmbeddings_def by fastforce
  then have "t \<in> set (concat (slices BATCH_SIZE texts))"
    using assms(3) by auto
  moreover have "0 < BATCH_SIZE"
    by (simp add: BATCH_SIZE_def)
  ultimately show ?thesis
    by (simp add: concat_slices)
qed

lemma getEmbeddings_truncated:
  assumes "getEmbeddings create (map (take 8000) texts) = (r, sent)" "b \<in> set sent" "t \<in> set b"
  shows "length t \<le> 8000"
  using getEmbeddings_sent [OF assms] by auto

lemma getEmbeddings_truncated_chunks:
  assumes "getEmbeddings create (map (\<lambda>c. take 8000 (chunk_text c)) chunks) = (r, sent)"
    "b \<in> set sent" "t \<in> set b"
  shows "length t \<le> 8000"
  using getEmbeddings_sent [OF assms] by auto

lemma ex_getEmbeddings: "getEmbeddings ex_provider [t] = (Inr [[3, 4]], [[t]])"
  by (simp add: getEmbeddings_def BATCH_SIZE_def ex_provider_def slices.simps)

lemma failing_getEmbeddings: "getEmbeddings failing_provider [t] = (Inl EmbeddingError, [[t]])"
  by (simp add: getEmbeddings_def BATCH_SIZE_def failing_provider_def slices.simps)

section \<open>Example runs\<close>

lemma ex_notes_length: "length ex_notes = 41"
  by (simp add: ex_notes_def)

lemma ex_notes_chunks:
  "chunkMarkdown ex_notes fp =
     [\<lparr> chunk_text = ex_notes, chunk_file = fp, chunk_startLine = 1, chunk_endLine = 2,
        chunk_heading = [] \<rparr>]"
  by (simp add: chunkMarkdown_def ex_notes_def LF_def is_heading_def flush_def trim_def
      is_space_def maxChars_def)

lemma short_chunks: "chunkMarkdown ''hi'' fp = []"
  by (simp add: chunkMarkdown_def LF_def is_heading_def flush_def trim_def is_space_def)

lemma show_nat_digit: "n < 10 \<Longrightarrow> show_nat n = [''0123456789'' ! n]"
  by (simp add: show_nat.simps)

lemmas index_simps = show_nat_digit index_main_def loadFileMeta_def loadIndex_def saveIndex_def
  saveFileMeta_def toIndex_of_def unchanged_def keptDocs_of_def allChunks_of_def newDocs_of_def
  newMeta_of_def Let_def ex_file_def ex_notes_chunks ex_notes_length ex_getEmbeddings
  failing_getEmbeddings empty_disk_def nth_opt_def short_chunks ex_doc_def docs_of_def
  meta_of_def

lemma ex_index_run:
  "index_main ex_provider 60000 False [ex_file ''notes.md'' 5] empty_disk =
     \<lparr> outcome = Inr (Indexed 1 1 1 [''notes.md'']),
       disk_after = \<lparr> index_file = Parsed
           [\<lparr> doc_id = ''notes.md:1'', doc_file = ''notes.md'', doc_startLine = 1,
              doc_endLine = 2, doc_heading = [], doc_text = ex_notes, doc_vector = Some [3, 4],
              doc_indexedAt = 60000, doc_meta = None \<rparr>],
         meta_file = Parsed [(''notes.md'', 5)], state_file = Missing \<rparr>,
       submitted = [[ex_notes]], written = [INDEX_FILE, META_FILE] \<rparr>"
  by (simp add: index_simps)

lemma ex_index_fail:
  "index_main failing_provider 60000 False [ex_file ''notes.md'' 5] empty_disk =
     \<lparr> outcome = Inl EmbeddingError, disk_after = empty_disk, submitted = [[ex_notes]],
       written = [] \<rparr>"
  by (simp add: index_simps)


section \<open>What the runs submit and write\<close>

lemma index_truncated:
  "b \<in> set (submitted (index_main create now full fs d)) \<Longrightarrow> t \<in> set b \<Longrightarrow> length t \<le> 8000"
  by (auto simp: index_main_def Let_def split: sum.splits prod.splits if_splits
      dest: getEmbeddings_truncated_chunks)

lemma ingest_truncated:
  "b \<in> set (submitted (ingest_main create now source0 text0 file d)) \<Longrightarrow> t \<in> set b \<Longrightarrow>
   length t \<le> 8000"
  by (auto simp: ingest_main_def Let_def split: sum.splits prod.splits if_splits
      dest: getEmbeddings_truncated_chunks)

lemma sessions_truncated:
  "b \<in> set (submitted (sessions_main JSON_parse toISOString create now sessions_index d)) \<Longrightarrow>
   t \<in> set b \<Longrightarrow> length t \<le> 8000"
  by (auto simp: sessions_main_def Let_def split: sum.splits prod.splits if_splits option.splits
      dest: getEmbeddings_truncated)

lemma index_embedding_failure:
  "(submitted (index_main create now full fs d) \<noteq> []
      \<and> create (last (submitted (index_main create now full fs d))) = None
     \<longrightarrow> outcome (index_main create now full fs d) = Inl EmbeddingError)
   \<and> (outcome (index_main create now full fs d) = Inl EmbeddingError
     \<longrightarrow> disk_after (index_main create now full fs d) = d
       \<and> written (index_main create now full fs d) = [])"
  by (auto simp: index_main_def Let_def split: sum.splits prod.splits if_splits
      dest: getEmbeddings_Inl getEmbeddings_Inr)

lemma ingest_embedding_failure:
  "(submitted (ingest_main create now source0 text0 file d) \<noteq> []
      \<and> create (last (submitted (ingest_main create now source0 text0 file d))) = None
     \<longrightarrow> outcome (ingest_main create now source0 text0 file d) = Inl EmbeddingError)
   \<and> (outcome (ingest_main create now source0 text0 file d) = Inl EmbeddingError
     \<longrightarrow> disk_after (ingest_main create now source0 text0 file d) = d
       \<and> written (ingest_main create now source0 text0 file d) = [])"
  by (auto simp: ingest_main_def Let_def split: sum.splits prod.splits if_splits
      dest: getEmbeddings_Inl getEmbeddings_Inr)

lemma sessions_embedding_failure:
  "(submitted (sessions_main JSON_parse toISOString create now sessions_index d) \<noteq> []
      \<and> create (last (submitted (sessions_main JSON_parse toISOString create now sessions_index d))) = None
     \<longrightarrow> outcome (sessions_main JSON_parse toISOString create now sessions_index d) = Inl EmbeddingError)
   \<and> (outcome (sessions_main JSON_parse toISOString create now sessions_index d) = Inl EmbeddingError
     \<longrightarrow> disk_after (sessions_main JSON_parse toISOString create now sessions_index d) = d
       \<and> written (sessions_main JSON_parse toISOString create now sessions_index d) = [])"
  by (auto simp: sessions_main_def Let_def split: sum.splits prod.splits if_splits option.splits
      dest: getEmbeddings_Inl getEmbeddings_Inr)

section \<open>Embedding failure, truncation and corrupt files\<close>

text \<open>
  C3. In the workspace indexer, the ad-hoc ingester and the session ingester: when the
  last call to the embedding provider fails, the run throws the embedding error; and a run
  that throws it has written no file, so the disk, and the chunk store on it, is what it
  was before the run.
\<close>

theorem embedding_failure_persists_nothing:
  "(submitted (index_main create now full fs d) \<noteq> []
      \<and> create (last (submitted (index_main create now full fs d))) = None
     \<longrightarrow> outcome (index_main create now full fs d) = Inl EmbeddingError)
   \<and> (outcome (index_main create now full fs d) = Inl EmbeddingError
     \<longrightarrow> disk_after (index_main create now full fs d) = d
       \<and> written (index_main create now full fs d) = [])
   \<and> (submitted (ingest_main create now source0 text0 file d) \<noteq> []
      \<and> create (last (submitted (ingest_main create now source0 text0 file d))) = None
     \<longrightarrow> outcome (ingest_main create now source0 text0 file d) = Inl EmbeddingError)
   \<and> (outcome (ingest_main create now source0 text0 file d) = Inl EmbeddingError
     \<longrightarrow> disk_after (ingest_main create now source0 text0 file d) = d
       \<and> written (ingest_main create now source0 text0 file d) = [])
   \<and> (submitted (sessions_main JSON_parse toISOString create now sessions_index d) \<noteq> []
      \<and> create (last (submitted (sessions_main JSON_parse toISOString create now sessions_index d))) = None
     \<longrightarrow> outcome (sessions_main JSON_parse toISOString create now sessions_index d) = Inl EmbeddingError)
   \<and> (outcome (sessions_main JSON_parse toISOString create now sessions_index d) = Inl EmbeddingError
     \<longrightarrow> disk_after (sessions_main JSON_parse toISOString create now sessions_index d) = d
       \<and> written (sessions_main JSON_parse toISOString create now sessions_index d) = [])"
  using index_embedding_failure [of create now full fs d]
    ingest_embedding_failure [of create now source0 text0 "file" d]
    sessions_embedding_failure [of JSON_parse toISOString create now sessions_index d]
  by blast

lemma ex_index_fail_on_store:
  "index_main failing_provider 60000 False [ex_file ''a.md'' 9, ex_file ''b.md'' 5] ex_disk =
     \<lparr> outcome = Inl EmbeddingError, disk_after = ex_disk, submitted = [[ex_notes]],
       written = [] \<rparr>"
  by (simp add: index_simps ex_disk_def)

theorem embedding_failure_persists_nothing_witness:
  "submitted (index_main failing_provider 60000 False [ex_file ''a.md'' 9, ex_file ''b.md'' 5] ex_disk)
     = [[ex_notes]]
   \<and> failing_provider [ex_notes] = None
   \<and> outcome (index_main failing_provider 60000 False [ex_file ''a.md'' 9, ex_file ''b.md'' 5] ex_disk)
     = Inl EmbeddingError
   \<and> disk_after (index_main failing_provider 60000 False [ex_file ''a.md'' 9, ex_file ''b.md'' 5] ex_disk)
     = ex_disk
   \<and> written (index_main failing_provider 60000 False [ex_file ''a.md'' 9, ex_file ''b.md'' 5] ex_disk)
     = []"
proof -
  have s: "submitted (index_main failing_provider 60000 False [ex_file ''a.md'' 9, ex_file ''b.md'' 5]
      ex_disk) = [[ex_notes]]"
    by (simp add: ex_index_fail_on_store)
  have f: "failing_provider [ex_notes] = None"
    by (simp add: failing_provider_def)
  show ?thesis
    using s f embedding_failure_persists_nothing [of failing_provider 60000 False
        "[ex_file ''a.md'' 9, ex_file ''b.md'' 5]" ex_disk]
    by simp
qed

text \<open>
  C9, as stated, fails: search embeds its query through the same client, which submits
  the texts it is given; a query of 8001 characters is submitted whole.
\<close>

theorem query_not_truncated_counterexample:
  "submitted (search_main ex_provider long_query 10 (Num (3 / 10))
      (empty_disk\<lparr> index_file := Parsed [ex_doc ''c.md'' [3, 4]] \<rparr>)) = [[long_query]]
   \<and> length long_query = 8001
   \<and> snd (getEmbeddings ex_provider [long_query]) = [[long_query]]"
proof -
  have "long_query \<noteq> []" "length long_query = 8001"
    by (simp_all add: long_query_def)
  then show ?thesis
    by (simp add: ex_search_simps empty_disk_def ex_getEmbeddings)
qed

text \<open>
  C9, amended. In the workspace indexer, the ad-hoc ingester and the session ingester,
  every text of every batch submitted to the embedding provider has at most 8000
  characters: each of the three callers cuts its texts with \<open>slice(0, 8000)\<close> before it calls
  the client.
\<close>

theorem pipelines_submit_truncated_texts:
  "(\<forall>b\<in>set (submitted (index_main create now full fs d)). \<forall>t\<in>set b. length t \<le> 8000)
   \<and> (\<forall>b\<in>set (submitted (ingest_main create now source0 text0 file d)).
        \<forall>t\<in>set b. length t \<le> 8000)
   \<and> (\<forall>b\<in>set (submitted (sessions_main JSON_parse toISOString create now sessions_index d)).
        \<forall>t\<in>set b. length t \<le> 8000)"
proof (intro conjI ballI)
  fix b t
  assume "b \<in> set (submitted (index_main create now full fs d))" "t \<in> set b"
  then show "length t \<le> 8000" by (rule index_truncated)
next
  fix b t
  assume "b \<in> set (submitted (ingest_main create now source0 text0 file d))" "t \<in> set b"
  then show "length t \<le> 8000" by (rule ingest_truncated)
next
  fix b t
  assume "b \<in> set (submitted (sessions_main JSON_parse toISOString create now sessions_index d))"
    "t \<in> set b"
  then show "length t \<le> 8000" by (rule sessions_truncated)
qed

theorem pipelines_submit_truncated_texts_witness:
  "submitted (index_main ex_provider 60000 False [ex_file ''notes.md'' 5] empty_disk) = [[ex_notes]]
   \<and> length ex_notes \<le> 8000"
proof -
  have s: "submitted (index_main ex_provider 60000 False [ex_file ''notes.md'' 5] empty_disk)
      = [[ex_notes]]"
    by (simp add: ex_index_run)
  show ?thesis
    using s pipelines_submit_truncated_texts [of ex_provider 60000 False
        "[ex_file ''notes.md'' 5]" empty_disk]
    by simp
qed

text \<open>
  C4, as stated, fails: with a store file or a tracker file that does not parse, the
  indexer throws, where with the file absent it indexes the crawled file.
\<close>

theorem corrupt_store_is_fatal_counterexample:
  "outcome (index_main ex_provider 60000 False [ex_file ''notes.md'' 5]
      (empty_disk\<lparr> index_file := Malformed \<rparr>)) = Inl SyntaxError
   \<and> outcome (index_main ex_provider 60000 False [ex_file ''notes.md'' 5]
      (empty_disk\<lparr> meta_file := Malformed \<rparr>)) = Inl SyntaxError
   \<and> outcome (index_main ex_provider 60000 False [ex_file ''notes.md'' 5] empty_disk)
      = Inr (Indexed 1 1 1 [''notes.md''])"
  by (simp add: ex_index_run) (simp add: index_main_def loadFileMeta_def loadIndex_def empty_disk_def)

text \<open>
  C4, amended. A session-ingest state file that does not parse is read as the default
  state, like an absent one, and the session ingester then does what it does without the
  file. A store file or a tracker file that does not parse makes \<open>loadIndex\<close> and
  \<open>loadFileMeta\<close> throw, and the run that loads it ends with the error.
\<close>

theorem corrupt_state_recovered_corrupt_store_thrown:
  "loadState Malformed = loadState Missing
   \<and> loadState Missing = \<lparr> files = [], lastRun = Some 0 \<rparr>
   \<and> outcome (sessions_main JSON_parse toISOString create now sessions_index (d\<lparr> state_file := Malformed \<rparr>))
     = outcome (sessions_main JSON_parse toISOString create now sessions_index (d\<lparr> state_file := Missing \<rparr>))
   \<and> submitted (sessions_main JSON_parse toISOString create now sessions_index (d\<lparr> state_file := Malformed \<rparr>))
     = submitted (sessions_main JSON_parse toISOString create now sessions_index (d\<lparr> state_file := Missing \<rparr>))
   \<and> written (sessions_main JSON_parse toISOString create now sessions_index (d\<lparr> state_file := Malformed \<rparr>))
     = written (sessions_main JSON_parse toISOString create now sessions_index (d\<lparr> state_file := Missing \<rparr>))
   \<and> index_file (disk_after (sessions_main JSON_parse toISOString create now sessions_index
         (d\<lparr> state_file := Malformed \<rparr>)))
     = index_file (disk_after (sessions_main JSON_parse toISOString create now sessions_index
         (d\<lparr> state_file := Missing \<rparr>)))
   \<and> loadIndex Malformed = Inl SyntaxError
   \<and> loadFileMeta Malformed = Inl SyntaxError
   \<and> outcome (index_main create now False fs (d\<lparr> meta_file := Malformed \<rparr>)) = Inl SyntaxError
   \<and> outcome (index_main create now False fs (d\<lparr> index_file := Malformed \<rparr>)) = Inl SyntaxError
   \<and> outcome (search_main create (c # cs) limit minScore (d\<lparr> index_file := Malformed \<rparr>))
     = Inl SyntaxError"
proof -
  have 1: "loadState Malformed = loadState Missing"
    "loadState Missing = \<lparr> files = [], lastRun = Some 0 \<rparr>"
    "loadIndex Malformed = Inl SyntaxError" "loadFileMeta Malformed = Inl SyntaxError"
    by (simp_all add: loadState_def loadIndex_def loadFileMeta_def)
  have 2: "outcome (index_main create now False fs (d\<lparr> meta_file := Malformed \<rparr>)) = Inl SyntaxError"
    by (simp add: index_main_def 1)
  have 3: "outcome (index_main create now False fs (d\<lparr> index_file := Malformed \<rparr>)) = Inl SyntaxError"
    by (simp add: index_main_def loadIndex_def loadFileMeta_def split: sum.splits json_file.splits)
  have 4: "outcome (search_main create (c # cs) limit minScore (d\<lparr> index_file := Malformed \<rparr>))
     = Inl SyntaxError"
    by (simp add: search_main_def 1)
  let ?m = "sessions_main JSON_parse toISOString create now sessions_index (d\<lparr> state_file := Malformed \<rparr>)"
  let ?a = "sessions_main JSON_parse toISOString create now sessions_index (d\<lparr> state_file := Missing \<rparr>)"
  have 5: "outcome ?m = outcome ?a \<and> submitted ?m = submitted ?a \<and> written ?m = written ?a
      \<and> index_file (disk_after ?m) = index_file (disk_after ?a)"
    by (simp add: sessions_main_def 1 Let_def split: sum.splits prod.splits)
  from 1 2 3 4 5 show ?thesis by blast
qed

theorem corrupt_state_recovered_corrupt_store_thrown_witness:
  "loadState Malformed = \<lparr> files = [], lastRun = Some 0 \<rparr>
   \<and> outcome (index_main ex_provider 60000 False [ex_file ''notes.md'' 5]
        (empty_disk\<lparr> index_file := Malformed \<rparr>)) = Inl SyntaxError"
  using corrupt_state_recovered_corrupt_store_thrown [of ex_parse ex_iso ex_provider 60000
      "Missing" empty_disk "[ex_file ''notes.md'' 5]" "CHR ''q''" "[]" 10 "Num 0"]
  by simp

section \<open>The workspace indexer\<close>

lemma newDocs_file:
  "x \<in> set (newDocs_of now cs embs) \<Longrightarrow> \<exists>c\<in>set cs. doc_file x = chunk_file c"
  by (auto simp: newDocs_of_def in_set_enumerate_eq)

lemma allChunks_file:
  "c \<in> set (allChunks_of T) \<Longrightarrow> \<exists>f\<in>set T. chunk_file c = relPath f"
  by (auto simp: allChunks_of_def dest: chunkMarkdown_file)

lemma newDocs_allChunks_file:
  "x \<in> set (newDocs_of now (allChunks_of T) embs) \<Longrightarrow> doc_file x \<in> relPath ` set T"
  using newDocs_file allChunks_file by fastforce

text \<open>The store after an incremental run, by the path the run took.\<close>

lemma index_docs_after:
  assumes "loadFileMeta (meta_file d) = Inr fileMeta"
  shows "docs_of (disk_after (index_main create now False fs d)) = docs_of d
    \<or> docs_of (disk_after (index_main create now False fs d))
        = keptDocs_of (toIndex_of False fileMeta fs) fs (docs_of d)
    \<or> (\<exists>embs. docs_of (disk_after (index_main create now False fs d))
        = keptDocs_of (toIndex_of False fileMeta fs) fs (docs_of d)
          @ newDocs_of now (allChunks_of (toIndex_of False fileMeta fs)) embs)"
proof (cases "index_file d")
  case Malformed
  then show ?thesis
    using assms by (simp add: index_main_def loadIndex_def)
next
  case Missing
  then show ?thesis
    using assms
    by (auto simp: index_main_def loadIndex_def docs_of_def saveIndex_def Let_def
        split: prod.splits sum.splits)
next
  case (Parsed ds)
  then show ?thesis
    using assms
    by (auto simp: index_main_def loadIndex_def docs_of_def saveIndex_def Let_def
        split: prod.splits sum.splits)
qed












text \<open>
  C1 fails on the code. With \<open>a.md\<close> and \<open>b.md\<close> indexed and tracked, a crawl that finds
  only \<open>a.md\<close>, unchanged, returns at "No files changed": the chunk and the tracker entry
  of \<open>b.md\<close> stay. And when the only changed file gives no chunk, the run saves the pruned
  store but not the tracker, which keeps the entry of the absent file.
\<close>

theorem absent_file_kept_when_nothing_changed:
  "index_main ex_provider 60000 False [ex_file ''a.md'' 5] ex_disk =
     \<lparr> outcome = Inr (No_files_changed 2), disk_after = ex_disk, submitted = [], written = [] \<rparr>
   \<and> map doc_file (docs_of ex_disk) = [''a.md'', ''b.md'']
   \<and> map fst (meta_of ex_disk) = [''a.md'', ''b.md'']
   \<and> index_main ex_provider 60000 False [\<lparr> relPath = ''a.md'', mtime = 9, content = ''hi'' \<rparr>] ex_disk =
     \<lparr> outcome = Inr (No_content_to_index 0), disk_after = ex_disk\<lparr> index_file := Parsed [] \<rparr>,
       submitted = [], written = [INDEX_FILE] \<rparr>"
  by (simp add: index_simps ex_disk_def)

text \<open>
  C7 fails on the code. A workspace whose only file is too short to give a chunk: the
  first run ends at "No content to index" and saves the store but not the tracker, so the
  second run, with no file changed in between, takes the file as changed again, chunks it,
  reports "No content to index" and writes the store file again.
\<close>

theorem second_run_not_noop_after_no_content:
  "index_main ex_provider 60000 False [ex_short_file] empty_disk =
     \<lparr> outcome = Inr (No_content_to_index 0), disk_after = empty_disk\<lparr> index_file := Parsed [] \<rparr>,
       submitted = [], written = [INDEX_FILE] \<rparr>
   \<and> index_main ex_provider 120000 False [ex_short_file] (empty_disk\<lparr> index_file := Parsed [] \<rparr>) =
     \<lparr> outcome = Inr (No_content_to_index 0), disk_after = empty_disk\<lparr> index_file := Parsed [] \<rparr>,
       submitted = [], written = [INDEX_FILE] \<rparr>"
  by (simp add: index_simps ex_short_file_def)

section \<open>The session ingester\<close>

lemma map_of_obj_set: "map_of (obj_set k v m) k' = (if k' = k then Some v else map_of m k')"
  by (induction m) auto






subsection \<open>The messages a run selects\<close>



lemma drop_enumerate: "drop m (enumerate n xs) = enumerate (n + m) (drop m xs)"
proof (induction xs arbitrary: n m)
  case Nil
  then show ?case by simp
next
  case (Cons x xs)
  then show ?case by (cases m) auto
qed


lemma map_snd_filter_enumerate:
  "map snd (filter (\<lambda>(i, m). P m) (enumerate n xs)) = filter P xs"
  by (induction xs arbitrary: n) auto

lemma select_from_appended:
  "map snd (select_from (length old) (old @ new)) = filter (\<lambda>m. \<not> shouldSkipMessage m) new"
  by (simp add: select_from_def drop_enumerate map_snd_filter_enumerate)

subsection \<open>Example runs of the session ingester\<close>




















subsection \<open>The chunks of a run cover only messages from the stored offset on\<close>












section \<open>The indexer on its other paths\<close>

text \<open>A run that reports "No files changed" has submitted and written nothing.\<close>

lemma no_files_changed_noop:
  "outcome (index_main create now full fs d) = Inr (No_files_changed n) \<Longrightarrow>
   disk_after (index_main create now full fs d) = d
   \<and> submitted (index_main create now full fs d) = []
   \<and> written (index_main create now full fs d) = []"
  by (auto simp: index_main_def Let_def split: sum.splits prod.splits if_splits)

lemma fst_set_obj_set: "fst ` set (obj_set k v m) = insert k (fst ` set m)"
  by (induction m) auto

lemma fst_set_newMeta:
  "fst ` set (foldl (\<lambda>m f. obj_set (relPath f) (mtime f) m) m0 T) = fst ` set m0 \<union> relPath ` set T"
  by (induction T arbitrary: m0) (auto simp: fst_set_obj_set)

lemma toIndex_subset: "set (toIndex_of full fileMeta fs) \<subseteq> set fs"
  by (auto simp: toIndex_of_def)

text \<open>
  On the path that merges and persists, a file that is not in the crawl has no chunk in
  the store and no entry in the tracker after the run.
\<close>

lemma absent_file_pruned_on_merge:
  assumes "outcome (index_main create now full fs d) = Inr (Indexed a b c ps)"
    and "p \<notin> relPath ` set fs"
  shows "p \<notin> doc_file ` set (docs_of (disk_after (index_main create now full fs d)))
    \<and> p \<notin> fst ` set (meta_of (disk_after (index_main create now full fs d)))"
proof -
  have new: "doc_file x \<in> relPath ` set fs"
    if "x \<in> set (newDocs_of now (allChunks_of (toIndex_of fl fileMeta fs)) embs)"
    for x fl fileMeta embs
    using newDocs_allChunks_file [OF that] toIndex_subset by fastforce
  have kept: "doc_file x \<in> relPath ` set fs" if "x \<in> set (keptDocs_of T fs ds)" for x T ds
    using that by (auto simp: keptDocs_of_def)
  have "fst ` set (newMeta_of fileMeta fs (toIndex_of fl fileMeta fs)) \<subseteq> relPath ` set fs"
    for fl fileMeta
    unfolding newMeta_of_def fst_set_newMeta using toIndex_subset by fastforce
  then have meta: "k \<in> relPath ` set fs"
    if "(k, v) \<in> set (newMeta_of fileMeta fs (toIndex_of fl fileMeta fs))" for k v fl fileMeta
    using that by (metis fst_conv image_eqI subsetD)
  show ?thesis
    using assms
    by (auto simp: index_main_def Let_def docs_of_def meta_of_def saveIndex_def saveFileMeta_def
        split: sum.splits prod.splits if_splits dest: new kept meta)
qed

text \<open>
  After a run that merged and persisted, a second incremental run over the same crawl (one
  entry per path) finds no file changed and leaves the disk as it is.
\<close>

lemma map_of_filter_key:
  "map_of (filter (\<lambda>(k, v). P k) m) k = (if P k then map_of m k else None)"
  by (induction m) auto

lemma map_of_newMeta_other:
  "k \<notin> relPath ` set T \<Longrightarrow>
   map_of (foldl (\<lambda>m f. obj_set (relPath f) (mtime f) m) m0 T) k = map_of m0 k"
  by (induction T arbitrary: m0) (auto simp: map_of_obj_set)

lemma map_of_newMeta_indexed:
  "distinct (map relPath T) \<Longrightarrow> f \<in> set T \<Longrightarrow>
   map_of (foldl (\<lambda>m f. obj_set (relPath f) (mtime f) m) m0 T) (relPath f) = Some (mtime f)"
proof (induction T arbitrary: m0)
  case Nil
  then show ?case by simp
next
  case (Cons g T)
  show ?case
  proof (cases "f = g")
    case True
    with Cons.prems(1) show ?thesis
      by (simp add: map_of_newMeta_other map_of_obj_set)
  next
    case False
    with Cons show ?thesis by simp
  qed
qed

lemma unchanged_after_merge:
  assumes "distinct (map relPath fs)" "f \<in> set fs"
  shows "unchanged False (newMeta_of fileMeta fs (toIndex_of full fileMeta fs)) f"
proof (cases "f \<in> set (toIndex_of full fileMeta fs)")
  case True
  have "distinct (map relPath (toIndex_of full fileMeta fs))"
    unfolding toIndex_of_def using assms(1) by (rule distinct_map_filter)
  from map_of_newMeta_indexed [OF this True] show ?thesis
    by (simp add: unchanged_def newMeta_of_def)
next
  case False
  with assms(2) have u: "unchanged full fileMeta f"
    by (simp add: toIndex_of_def)
  have inj: "inj_on relPath (set fs)"
    using assms(1) by (simp add: distinct_map)
  have "relPath f \<notin> relPath ` set (toIndex_of full fileMeta fs)"
  proof
    assume "relPath f \<in> relPath ` set (toIndex_of full fileMeta fs)"
    then obtain g where g: "g \<in> set (toIndex_of full fileMeta fs)" "relPath g = relPath f"
      by auto
    then have "g \<in> set fs" using toIndex_subset by blast
    with inj assms(2) g(2) have "g = f" by (auto dest: inj_onD)
    with g(1) False show False by simp
  qed
  then have "map_of (newMeta_of fileMeta fs (toIndex_of full fileMeta fs)) (relPath f)
      = map_of (filter (\<lambda>(k, v). k \<in> set (map relPath fs)) fileMeta) (relPath f)"
    unfolding newMeta_of_def by (rule map_of_newMeta_other)
  also have "\<dots> = map_of fileMeta (relPath f)"
    using assms(2) by (simp add: map_of_filter_key)
  finally show ?thesis
    using u by (simp add: unchanged_def)
qed

lemma indexed_shape:
  "outcome (index_main create now full fs d) = Inr (Indexed a b c ps) \<Longrightarrow>
   fileMeta = (case (if full then Inr [] else loadFileMeta (meta_file d)) of
                 Inr m \<Rightarrow> m | Inl e \<Rightarrow> []) \<Longrightarrow>
   disk_after (index_main create now full fs d)
     = d\<lparr> index_file := Parsed (docs_of (disk_after (index_main create now full fs d))),
          meta_file := Parsed (newMeta_of fileMeta fs (toIndex_of full fileMeta fs)) \<rparr>
   \<and> c = length (docs_of (disk_after (index_main create now full fs d)))"
  by (auto simp: index_main_def Let_def saveIndex_def saveFileMeta_def docs_of_def
      split: sum.splits prod.splits if_splits)

lemma second_run_noop_after_merge:
  assumes "distinct (map relPath fs)"
    and "outcome (index_main create now full fs d) = Inr (Indexed a b c ps)"
  shows "index_main create2 now2 False fs (disk_after (index_main create now full fs d)) =
     \<lparr> outcome = Inr (No_files_changed c),
       disk_after = disk_after (index_main create now full fs d),
       submitted = [], written = [] \<rparr>"
proof -
  obtain fileMeta finalDocs where
    d: "disk_after (index_main create now full fs d)
       = d\<lparr> index_file := Parsed finalDocs,
            meta_file := Parsed (newMeta_of fileMeta fs (toIndex_of full fileMeta fs)) \<rparr>"
    and c: "c = length finalDocs"
    using indexed_shape [OF assms(2) refl] by blast
  have "toIndex_of False (newMeta_of fileMeta fs (toIndex_of full fileMeta fs)) fs = []"
    unfolding toIndex_of_def [of False] using unchanged_after_merge [OF assms(1)]
    by (simp add: filter_empty_conv)
  then show ?thesis
    unfolding d by (simp add: index_main_def loadFileMeta_def loadIndex_def c)
qed

end
